theory Spec2Isabelle
  imports Main "HOL-Library.AList"
begin

section \<open>Paths and the file store\<close>

text \<open>
  The program keeps everything below one directory,
  \<^verbatim>\<open>$HOME/.config/gcal-readonly-mcp\<close>. A path is kept as the list of its
  components below the root; \<^verbatim>\<open>filepath.Join\<close> joins its elements with a
  separator and cleans the result lexically (empty and \<^verbatim>\<open>.\<close> components go,
  \<^verbatim>\<open>..\<close> removes the component before it and is dropped at the root). The
  home directory is taken as an absolute path.
\<close>

type_synonym path = "string list"

fun split_slash :: "string \<Rightarrow> string list" where
  "split_slash [] = [[]]"
| "split_slash (c # cs) =
     (if c = CHR ''/'' then [] # split_slash cs
      else (case split_slash cs of [] \<Rightarrow> [[c]] | x # xs \<Rightarrow> (c # x) # xs))"

definition clean_step :: "path \<Rightarrow> string \<Rightarrow> path" where
  "clean_step p c =
     (if c = [] \<or> c = ''.'' then p else if c = ''..'' then butlast p else p @ [c])"

definition filepath_Join :: "path \<Rightarrow> string list \<Rightarrow> path" where
  "filepath_Join base elems = foldl clean_step base (concat (map split_slash elems))"

definition filepath_Dir :: "path \<Rightarrow> path" where
  "filepath_Dir p = butlast p"

text \<open>
  The store maps a path to a regular file (its bytes and permission bits) or to a
  directory (its permission bits). The operations are those of package \<^verbatim>\<open>os\<close>
  that the program calls, with the error numbers that the system reports. The process
  is the owner of every entry and has no privilege, so the owner's bits decide: reading
  a file needs its read bit, overwriting it its write bit, making or removing an entry
  the write bit of the directory that holds it, and passing through a directory its
  search bit. There are no links, and the mask of the process leaves the owner's bits of
  what it creates.
\<close>

datatype node = File string nat | Dir nat

datatype errno = ENOENT | ENOTDIR | EISDIR | EEXIST | ENOTEMPTY | EACCES | EBUSY

type_synonym fs = "(path \<times> node) list"

definition can_read :: "nat \<Rightarrow> bool" where
  "can_read m = odd (m div 256)"

definition can_write :: "nat \<Rightarrow> bool" where
  "can_write m = odd (m div 128)"

definition can_search :: "nat \<Rightarrow> bool" where
  "can_search m = odd (m div 64)"

text \<open>The system resolves a path from the root: each directory on the way must exist,
  be a directory and allow the search; the first that does not decides the error.\<close>

definition ancestors :: "path \<Rightarrow> path list" where
  "ancestors p = map (\<lambda>n. take n p) [0..<length p]"

fun check_dirs :: "fs \<Rightarrow> path list \<Rightarrow> errno option" where
  "check_dirs s [] = None"
| "check_dirs s (q # qs) =
     (case map_of s q of
        None \<Rightarrow> Some ENOENT
      | Some (File _ _) \<Rightarrow> Some ENOTDIR
      | Some (Dir m) \<Rightarrow> (if can_search m then check_dirs s qs else Some EACCES))"

definition traverse :: "fs \<Rightarrow> path \<Rightarrow> errno option" where
  "traverse s p = check_dirs s (ancestors p)"

definition os_Stat :: "fs \<Rightarrow> path \<Rightarrow> errno + node" where
  "os_Stat s p =
     (case traverse s p of
        Some e \<Rightarrow> Inl e
      | None \<Rightarrow> (case map_of s p of None \<Rightarrow> Inl ENOENT | Some n \<Rightarrow> Inr n))"

definition os_ReadFile :: "fs \<Rightarrow> path \<Rightarrow> errno + string" where
  "os_ReadFile s p =
     (case traverse s p of
        Some e \<Rightarrow> Inl e
      | None \<Rightarrow>
          (case map_of s p of
             None \<Rightarrow> Inl ENOENT
           | Some (Dir m) \<Rightarrow> (if can_read m then Inl EISDIR else Inl EACCES)
           | Some (File d m) \<Rightarrow> (if can_read m then Inr d else Inl EACCES)))"

text \<open>\<^verbatim>\<open>os.WriteFile\<close> truncates an existing file and keeps its mode; it creates a
  missing one, with the mode given, in the directory that is to hold it.\<close>

definition os_WriteFile :: "fs \<Rightarrow> path \<Rightarrow> string \<Rightarrow> nat \<Rightarrow> errno + fs" where
  "os_WriteFile s p d perm =
     (case traverse s p of
        Some e \<Rightarrow> Inl e
      | None \<Rightarrow>
          (case map_of s p of
             Some (Dir _) \<Rightarrow> Inl EISDIR
           | Some (File _ m) \<Rightarrow>
               (if can_write m then Inr (AList.update p (File d m) s) else Inl EACCES)
           | None \<Rightarrow>
               (case map_of s (butlast p) of
                  Some (Dir pm) \<Rightarrow>
                    (if p \<noteq> [] \<and> can_write pm then Inr (AList.update p (File d perm) s)
                     else Inl EACCES)
                | Some (File _ _) \<Rightarrow> Inl ENOTDIR
                | None \<Rightarrow> Inl ENOENT)))"

definition os_Mkdir :: "fs \<Rightarrow> path \<Rightarrow> nat \<Rightarrow> errno + fs" where
  "os_Mkdir s p perm =
     (case traverse s p of
        Some e \<Rightarrow> Inl e
      | None \<Rightarrow>
          (case map_of s p of
             Some _ \<Rightarrow> Inl EEXIST
           | None \<Rightarrow>
               (case map_of s (butlast p) of
                  Some (Dir pm) \<Rightarrow>
                    (if p \<noteq> [] \<and> can_write pm then Inr (AList.update p (Dir perm) s)
                     else Inl EACCES)
                | Some (File _ _) \<Rightarrow> Inl ENOTDIR
                | None \<Rightarrow> Inl ENOENT)))"

text \<open>\<^verbatim>\<open>os.MkdirAll\<close>: nothing to do for a directory, an error for a file, and
  otherwise the parent first and then the directory itself; when making the directory
  fails and the directory is there all the same, that is no error.\<close>

definition mkdir_or_exists :: "fs \<Rightarrow> path \<Rightarrow> nat \<Rightarrow> errno + fs" where
  "mkdir_or_exists s p perm =
     (case os_Mkdir s p perm of
        Inr s' \<Rightarrow> Inr s'
      | Inl e \<Rightarrow> (case os_Stat s p of Inr (Dir _) \<Rightarrow> Inr s | _ \<Rightarrow> Inl e))"

function os_MkdirAll :: "fs \<Rightarrow> path \<Rightarrow> nat \<Rightarrow> errno + fs" where
  "os_MkdirAll s p perm =
     (case os_Stat s p of
        Inr (Dir _) \<Rightarrow> Inr s
      | Inr (File _ _) \<Rightarrow> Inl ENOTDIR
      | Inl _ \<Rightarrow>
          (if p = [] then mkdir_or_exists s p perm
           else (case os_MkdirAll s (butlast p) perm of
                   Inl e \<Rightarrow> Inl e
                 | Inr s' \<Rightarrow> mkdir_or_exists s' p perm)))"
  by pat_completeness auto
termination
  by (relation "measure (\<lambda>(s, p, perm). length p)") auto

text \<open>\<^verbatim>\<open>os.Remove\<close> deletes a file or an empty directory from the directory that
  holds it; the root cannot be removed.\<close>

definition os_Remove :: "fs \<Rightarrow> path \<Rightarrow> errno + fs" where
  "os_Remove s p =
     (case traverse s p of
        Some e \<Rightarrow> Inl e
      | None \<Rightarrow>
          (case map_of s p of
             None \<Rightarrow> Inl ENOENT
           | Some n \<Rightarrow>
               (if p = [] then Inl EBUSY
                else (case map_of s (butlast p) of
                        Some (Dir pm) \<Rightarrow>
                          (if \<not> can_write pm then Inl EACCES
                           else (case n of
                                   File _ _ \<Rightarrow> Inr (AList.delete p s)
                                 | Dir _ \<Rightarrow>
                                     (if list_ex (\<lambda>(q, n). q \<noteq> [] \<and> butlast q = p) s
                                      then Inl ENOTEMPTY
                                      else Inr (AList.delete p s))))
                      | Some (File _ _) \<Rightarrow> Inl ENOTDIR
                      | None \<Rightarrow> Inl ENOENT))))"

section \<open>Data of the program\<close>

text \<open>\<^verbatim>\<open>oauth2.Token\<close> as the token file shows it: the fields that are written
  as JSON.\<close>

record Token =
  AccessToken :: string
  TokenType :: string
  RefreshToken :: string
  Expiry :: int

record AccountConfig =
  Name :: string
  Email :: string

record Config =
  Accounts :: "string \<rightharpoonup> AccountConfig"

record oauth2_Config =
  ClientID :: string
  ClientSecret :: string
  RedirectURL :: string
  Scopes :: "string list"

text \<open>Every place where the program makes an error value is a constructor.\<close>

datatype err =
    ErrHomeDir
  | ErrOs errno
  | ErrReadCredentials errno
  | ErrParseCredentials
  | ErrParseToken
  | ErrMarshalToken
  | ErrCreateTokenDir errno
  | ErrWriteToken errno
  | ErrNoCodeInCallback
  | ErrServer
  | ErrTimeout
  | ErrExchange
  | ErrCreateService
  | ErrPrimaryCalendar
  | ErrReadConfig errno
  | ErrParseConfig
  | ErrCreateConfigDir errno
  | ErrCreateTokensDir errno
  | ErrMarshalConfig
  | ErrWriteConfig errno
  | ErrAccountNotFound string
  | ErrAccountExists string
  | ErrCredentialsMissing path
  | ErrOAuthFlow err

text \<open>The error taxonomy of the specification, and the class of each error value.\<close>

datatype error_class =
    ConfigError | ParseError | NotFoundError | ListenerError | ExchangeError
  | TimeoutError | PersistenceError | IdentityLookupError | OtherError

fun classify :: "err \<Rightarrow> error_class" where
  "classify (ErrOs e) = (if e = ENOENT then NotFoundError else OtherError)"
| "classify (ErrReadCredentials _) = ConfigError"
| "classify ErrParseCredentials = ParseError"
| "classify ErrParseToken = ParseError"
| "classify ErrParseConfig = ParseError"
| "classify (ErrCreateTokenDir _) = PersistenceError"
| "classify (ErrWriteToken _) = PersistenceError"
| "classify ErrMarshalToken = PersistenceError"
| "classify (ErrCreateConfigDir _) = PersistenceError"
| "classify (ErrCreateTokensDir _) = PersistenceError"
| "classify (ErrWriteConfig _) = PersistenceError"
| "classify ErrMarshalConfig = PersistenceError"
| "classify ErrNoCodeInCallback = ListenerError"
| "classify ErrServer = ListenerError"
| "classify ErrTimeout = TimeoutError"
| "classify ErrExchange = ExchangeError"
| "classify ErrCreateService = IdentityLookupError"
| "classify ErrPrimaryCalendar = IdentityLookupError"
| "classify (ErrCredentialsMissing _) = ConfigError"
| "classify _ = OtherError"

section \<open>Channels and the authorization session\<close>

text \<open>
  A buffered Go channel: the values in its buffer, the values of the goroutines that are
  parked in a send because the buffer is full, and its capacity. A receive takes the
  oldest buffered value and lets the first parked sender put its value into the buffer.
\<close>

record 'a chan =
  buf :: "'a list"
  sendq :: "'a list"
  cap :: nat

definition make_chan :: "nat \<Rightarrow> 'a chan" where
  "make_chan n = \<lparr>buf = [], sendq = [], cap = n\<rparr>"

definition chan_send :: "'a \<Rightarrow> 'a chan \<Rightarrow> 'a chan" where
  "chan_send v c =
     (if length (buf c) < cap c then c\<lparr>buf := buf c @ [v]\<rparr>
      else c\<lparr>sendq := sendq c @ [v]\<rparr>)"

definition chan_recv :: "'a chan \<Rightarrow> ('a \<times> 'a chan) option" where
  "chan_recv c =
     (case buf c of
        [] \<Rightarrow> None
      | v # vs \<Rightarrow>
          Some (v, case sendq c of
                     [] \<Rightarrow> c\<lparr>buf := vs\<rparr>
                   | u # us \<Rightarrow> c\<lparr>buf := vs @ [u], sendq := us\<rparr>))"

text \<open>
  \<^verbatim>\<open>strings.TrimSpace\<close> removes the white space of Unicode at both ends. Strings
  are bytes, so each white space character is the byte sequence of its UTF-8 encoding.
\<close>

definition space_runes :: "string list" where
  "space_runes =
     [[CHR 0x09], [CHR 0x0A], [CHR 0x0B], [CHR 0x0C], [CHR 0x0D], [CHR 0x20],
      [CHR 0xC2, CHR 0x85], [CHR 0xC2, CHR 0xA0], [CHR 0xE1, CHR 0x9A, CHR 0x80],
      [CHR 0xE2, CHR 0x80, CHR 0x80], [CHR 0xE2, CHR 0x80, CHR 0x81],
      [CHR 0xE2, CHR 0x80, CHR 0x82], [CHR 0xE2, CHR 0x80, CHR 0x83],
      [CHR 0xE2, CHR 0x80, CHR 0x84], [CHR 0xE2, CHR 0x80, CHR 0x85],
      [CHR 0xE2, CHR 0x80, CHR 0x86], [CHR 0xE2, CHR 0x80, CHR 0x87],
      [CHR 0xE2, CHR 0x80, CHR 0x88], [CHR 0xE2, CHR 0x80, CHR 0x89],
      [CHR 0xE2, CHR 0x80, CHR 0x8A], [CHR 0xE2, CHR 0x80, CHR 0xA8],
      [CHR 0xE2, CHR 0x80, CHR 0xA9], [CHR 0xE2, CHR 0x80, CHR 0xAF],
      [CHR 0xE2, CHR 0x81, CHR 0x9F], [CHR 0xE3, CHR 0x80, CHR 0x80]]"

definition strip_space :: "string list \<Rightarrow> string \<Rightarrow> string option" where
  "strip_space runes s =
     (case filter (\<lambda>r. take (length r) s = r) runes of
        [] \<Rightarrow> None
      | r # _ \<Rightarrow> Some (drop (length r) s))"

primrec trim_left :: "nat \<Rightarrow> string list \<Rightarrow> string \<Rightarrow> string" where
  "trim_left 0 runes s = s"
| "trim_left (Suc n) runes s =
     (case strip_space runes s of None \<Rightarrow> s | Some t \<Rightarrow> trim_left n runes t)"

definition strings_TrimSpace :: "string \<Rightarrow> string" where
  "strings_TrimSpace s =
     (let l = trim_left (length s) space_runes s
      in rev (trim_left (length l) (map rev space_runes) (rev l)))"

text \<open>
  One authorization session: the two channels of \<^verbatim>\<open>PerformOAuthFlow\<close>, its HTTP
  server, whether the goroutine that reads standard input has read its line, and where
  the coordinator (the goroutine running \<^verbatim>\<open>PerformOAuthFlow\<close>) stands. The
  goroutines run concurrently; a schedule lists what happens in the order it happens.
\<close>

datatype signal = GotCode string | GotErr err | TimedOut

datatype coord = Running | Parked | Resolved signal | Exited signal

datatype srv = NotStarted | Listening | Failed | Closed

datatype action =
    ServerStart bool
  | Callback string
  | Stdin "string option"
  | EnterSelect bool
  | TimerFires
  | StopServer

record session =
  codeChan :: "string chan"
  errChan :: "err chan"
  server :: srv
  reader_done :: bool
  coord :: coord

definition new_session :: session where
  "new_session =
     \<lparr>codeChan = make_chan 1, errChan = make_chan 1, server = NotStarted,
      reader_done = False, coord = Running\<rparr>"

text \<open>A send to a channel on which the coordinator is parked in its
  \<^verbatim>\<open>select\<close> hands the value over and wakes the coordinator; otherwise the value
  goes to the buffer, or the sender parks.\<close>

definition deliver_code :: "string \<Rightarrow> session \<Rightarrow> session" where
  "deliver_code v s =
     (if coord s = Parked then s\<lparr>coord := Resolved (GotCode v)\<rparr>
      else s\<lparr>codeChan := chan_send v (codeChan s)\<rparr>)"

definition deliver_err :: "err \<Rightarrow> session \<Rightarrow> session" where
  "deliver_err e s =
     (if coord s = Parked then s\<lparr>coord := Resolved (GotErr e)\<rparr>
      else s\<lparr>errChan := chan_send e (errChan s)\<rparr>)"

text \<open>The handler of \<^verbatim>\<open>/callback\<close>, given the value of the query parameter
  \<^verbatim>\<open>code\<close> (empty when the parameter is absent).\<close>

definition callback_handler :: "string \<Rightarrow> session \<Rightarrow> session" where
  "callback_handler code s =
     (if code = [] then deliver_err ErrNoCodeInCallback s else deliver_code code s)"

text \<open>The goroutine that starts the server: \<^verbatim>\<open>ListenAndServe\<close> binds the port, or
  fails and the error is sent; on a server that is closed already it returns
  \<^verbatim>\<open>ErrServerClosed\<close>, which is not sent.\<close>

definition server_goroutine :: "bool \<Rightarrow> session \<Rightarrow> session" where
  "server_goroutine bound s =
     (if server s = NotStarted then
        (if bound then s\<lparr>server := Listening\<rparr>
         else deliver_err ErrServer (s\<lparr>server := Failed\<rparr>))
      else s)"

text \<open>The goroutine that reads one line from standard input; \<open>None\<close> is a read that
  returned an error.\<close>

definition manual_reader :: "string option \<Rightarrow> session \<Rightarrow> session" where
  "manual_reader r s =
     (if reader_done s then s
      else (let s' = s\<lparr>reader_done := True\<rparr>
            in case r of
                 None \<Rightarrow> s'
               | Some line \<Rightarrow>
                   (let input = strings_TrimSpace line
                    in if input \<noteq> [] then deliver_code input s' else s')))"

definition recv_code :: "session \<Rightarrow> session" where
  "recv_code s =
     (case chan_recv (codeChan s) of
        None \<Rightarrow> s
      | Some (v, c) \<Rightarrow> s\<lparr>codeChan := c, coord := Resolved (GotCode v)\<rparr>)"

definition recv_err :: "session \<Rightarrow> session" where
  "recv_err s =
     (case chan_recv (errChan s) of
        None \<Rightarrow> s
      | Some (e, c) \<Rightarrow> s\<lparr>errChan := c, coord := Resolved (GotErr e)\<rparr>)"

text \<open>The coordinator reaches its \<^verbatim>\<open>select\<close>: it receives from a channel that is
  ready (the flag decides when both are), and parks when none is.\<close>

definition enter_select :: "bool \<Rightarrow> session \<Rightarrow> session" where
  "enter_select prefer_err s =
     (if coord s \<noteq> Running then s
      else if buf (codeChan s) \<noteq> [] \<and> buf (errChan s) \<noteq> [] then
        (if prefer_err then recv_err s else recv_code s)
      else if buf (codeChan s) \<noteq> [] then recv_code s
      else if buf (errChan s) \<noteq> [] then recv_err s
      else s\<lparr>coord := Parked\<rparr>)"

definition timer_fires :: "session \<Rightarrow> session" where
  "timer_fires s = (if coord s = Parked then s\<lparr>coord := Resolved TimedOut\<rparr> else s)"

text \<open>\<^verbatim>\<open>server.Close\<close> and \<^verbatim>\<open>server.Shutdown\<close> both close the listener at once;
  a server that has not started will not start afterwards.\<close>

definition server_Close :: "srv \<Rightarrow> srv" where
  "server_Close v = Closed"

definition server_Shutdown :: "srv \<Rightarrow> srv" where
  "server_Shutdown v = Closed"

definition stop_server :: "session \<Rightarrow> session" where
  "stop_server s =
     (case coord s of
        Resolved (GotCode c) \<Rightarrow>
          s\<lparr>server := server_Shutdown (server s), coord := Exited (GotCode c)\<rparr>
      | Resolved (GotErr e) \<Rightarrow>
          s\<lparr>server := server_Close (server s), coord := Exited (GotErr e)\<rparr>
      | Resolved TimedOut \<Rightarrow>
          s\<lparr>server := server_Close (server s), coord := Exited TimedOut\<rparr>
      | _ \<Rightarrow> s)"

fun step :: "action \<Rightarrow> session \<Rightarrow> session" where
  "step (ServerStart bound) s = server_goroutine bound s"
| "step (Callback code) s = (if server s = Listening then callback_handler code s else s)"
| "step (Stdin r) s = manual_reader r s"
| "step (EnterSelect prefer_err) s = enter_select prefer_err s"
| "step TimerFires s = timer_fires s"
| "step StopServer s = stop_server s"

fun run :: "action list \<Rightarrow> session \<Rightarrow> session" where
  "run [] s = s"
| "run (a # as) s = run as (step a s)"

text \<open>When nothing more happens, the coordinator still goes on: it reaches the
  \<^verbatim>\<open>select\<close>, the timer of five minutes fires if it is parked there, and it stops
  the server.\<close>

definition finish :: "session \<Rightarrow> session" where
  "finish s = stop_server (timer_fires (enter_select False s))"

definition outcome :: "session \<Rightarrow> signal" where
  "outcome s = (case coord s of Exited g \<Rightarrow> g | Resolved g \<Rightarrow> g | _ \<Rightarrow> TimedOut)"

text \<open>The session up to the moment the coordinator has stopped the server: the signal
  its \<^verbatim>\<open>select\<close> took, the session then, and what of the schedule comes later.\<close>

fun await :: "action list \<Rightarrow> session \<Rightarrow> signal \<times> session \<times> action list" where
  "await [] s = (outcome (finish s), finish s, [])"
| "await (a # as) s =
     (case coord (step a s) of
        Exited g \<Rightarrow> (g, step a s, as)
      | _ \<Rightarrow> await as (step a s))"

section \<open>The world outside the program\<close>

text \<open>
  What the program takes from outside during a run: the environment variable
  \<^verbatim>\<open>HOME\<close>, the JSON library at the types the program uses it (\<open>None\<close> is an
  error; an inner \<open>None\<close> of the configuration's decoder is a \<^verbatim>\<open>nil\<close> map),
  the provider's library, and the schedule of the authorization session. What the
  program changes: the file store, and the sessions it has run, each as it was when
  \<^verbatim>\<open>PerformOAuthFlow\<close> returned.
\<close>

record env =
  HOME :: string
  json_Unmarshal_Token :: "string \<Rightarrow> Token option"
  json_MarshalIndent_Token :: "Token \<Rightarrow> string option"
  json_Unmarshal_Config :: "string \<Rightarrow> (string \<rightharpoonup> AccountConfig) option option"
  json_MarshalIndent_Config :: "Config \<Rightarrow> string option"
  google_ConfigFromJSON :: "string \<Rightarrow> string list \<Rightarrow> oauth2_Config option"
  oauth2_Exchange :: "oauth2_Config \<Rightarrow> string \<Rightarrow> Token option"
  calendar_NewService :: "oauth2_Config \<Rightarrow> Token \<Rightarrow> bool"
  CalendarList_Get_primary :: "Token \<Rightarrow> string option"
  schedule :: "action list"

record world =
  files :: fs
  sessions :: "session list"

definition port_held :: "world \<Rightarrow> bool" where
  "port_held w = list_ex (\<lambda>s. server s = Listening) (sessions w)"

definition owner_rwx :: nat where
  "owner_rwx = 7 * 64"

definition owner_rw :: nat where
  "owner_rw = 6 * 64"

definition os_UserHomeDir :: "env \<Rightarrow> string option" where
  "os_UserHomeDir E = (if HOME E = [] then None else Some (HOME E))"

section \<open>config.go\<close>

definition GetConfigDir :: "env \<Rightarrow> err + path" where
  "GetConfigDir E =
     (case os_UserHomeDir E of
        None \<Rightarrow> Inl ErrHomeDir
      | Some homeDir \<Rightarrow> Inr (filepath_Join [] [homeDir, ''.config'', ''gcal-readonly-mcp'']))"

definition GetTokenPath :: "env \<Rightarrow> string \<Rightarrow> err + path" where
  "GetTokenPath E accountName =
     (case GetConfigDir E of
        Inl e \<Rightarrow> Inl e
      | Inr configDir \<Rightarrow>
          Inr (filepath_Join configDir [''tokens'', accountName @ ''.json'']))"

definition GetCredentialsPath :: "env \<Rightarrow> err + path" where
  "GetCredentialsPath E =
     (case GetConfigDir E of
        Inl e \<Rightarrow> Inl e
      | Inr configDir \<Rightarrow> Inr (filepath_Join configDir [''credentials.json'']))"

definition LoadConfig :: "env \<Rightarrow> fs \<Rightarrow> err + Config" where
  "LoadConfig E s =
     (case GetConfigDir E of
        Inl e \<Rightarrow> Inl e
      | Inr configDir \<Rightarrow>
          (case os_ReadFile s (filepath_Join configDir [''config.json'']) of
             Inl e \<Rightarrow>
               (if e = ENOENT then Inr \<lparr>Accounts = Map.empty\<rparr> else Inl (ErrReadConfig e))
           | Inr data \<Rightarrow>
               (case json_Unmarshal_Config E data of
                  None \<Rightarrow> Inl ErrParseConfig
                | Some None \<Rightarrow> Inr \<lparr>Accounts = Map.empty\<rparr>
                | Some (Some m) \<Rightarrow> Inr \<lparr>Accounts = m\<rparr>)))"

definition SaveConfig :: "env \<Rightarrow> Config \<Rightarrow> world \<Rightarrow> err option \<times> world" where
  "SaveConfig E config w =
     (case GetConfigDir E of
        Inl e \<Rightarrow> (Some e, w)
      | Inr configDir \<Rightarrow>
          (case os_MkdirAll (files w) configDir owner_rwx of
             Inl e \<Rightarrow> (Some (ErrCreateConfigDir e), w)
           | Inr s1 \<Rightarrow>
               (case os_MkdirAll s1 (filepath_Join configDir [''tokens'']) owner_rwx of
                  Inl e \<Rightarrow> (Some (ErrCreateTokensDir e), w\<lparr>files := s1\<rparr>)
                | Inr s2 \<Rightarrow>
                    (case json_MarshalIndent_Config E config of
                       None \<Rightarrow> (Some ErrMarshalConfig, w\<lparr>files := s2\<rparr>)
                     | Some data \<Rightarrow>
                         (case os_WriteFile s2 (filepath_Join configDir [''config.json''])
                                 data owner_rw of
                            Inl e \<Rightarrow> (Some (ErrWriteConfig e), w\<lparr>files := s2\<rparr>)
                          | Inr s3 \<Rightarrow> (None, w\<lparr>files := s3\<rparr>))))))"

definition ListConfiguredAccounts :: "env \<Rightarrow> fs \<Rightarrow> err + string set" where
  "ListConfiguredAccounts E s =
     (case LoadConfig E s of Inl e \<Rightarrow> Inl e | Inr config \<Rightarrow> Inr (dom (Accounts config)))"

definition RemoveAccount :: "env \<Rightarrow> string \<Rightarrow> world \<Rightarrow> err option \<times> world" where
  "RemoveAccount E name w =
     (case LoadConfig E (files w) of
        Inl e \<Rightarrow> (Some e, w)
      | Inr config \<Rightarrow>
          (if Accounts config name = None then (Some (ErrAccountNotFound name), w)
           else (case GetTokenPath E name of
                   Inl e \<Rightarrow> (Some e, w)
                 | Inr tokenPath \<Rightarrow>
                     (let s1 = (case os_Remove (files w) tokenPath of
                                  Inl _ \<Rightarrow> files w
                                | Inr s' \<Rightarrow> s')
                      in SaveConfig E (config\<lparr>Accounts := (Accounts config)(name := None)\<rparr>)
                           (w\<lparr>files := s1\<rparr>)))))"

section \<open>auth.go\<close>

definition oauthScopes :: "string list" where
  "oauthScopes = [''https://www.googleapis.com/auth/calendar.readonly'']"

definition GetOAuthConfig :: "env \<Rightarrow> fs \<Rightarrow> err + oauth2_Config" where
  "GetOAuthConfig E s =
     (case GetCredentialsPath E of
        Inl e \<Rightarrow> Inl e
      | Inr credPath \<Rightarrow>
          (case os_ReadFile s credPath of
             Inl e \<Rightarrow> Inl (ErrReadCredentials e)
           | Inr data \<Rightarrow>
               (case google_ConfigFromJSON E data oauthScopes of
                  None \<Rightarrow> Inl ErrParseCredentials
                | Some config \<Rightarrow> Inr config)))"

definition LoadToken :: "env \<Rightarrow> string \<Rightarrow> fs \<Rightarrow> err + Token" where
  "LoadToken E accountName s =
     (case GetTokenPath E accountName of
        Inl e \<Rightarrow> Inl e
      | Inr tokenPath \<Rightarrow>
          (case os_ReadFile s tokenPath of
             Inl e \<Rightarrow> Inl (ErrOs e)
           | Inr data \<Rightarrow>
               (case json_Unmarshal_Token E data of
                  None \<Rightarrow> Inl ErrParseToken
                | Some token \<Rightarrow> Inr token)))"

definition SaveToken :: "env \<Rightarrow> string \<Rightarrow> Token \<Rightarrow> world \<Rightarrow> err option \<times> world" where
  "SaveToken E accountName token w =
     (case GetTokenPath E accountName of
        Inl e \<Rightarrow> (Some e, w)
      | Inr tokenPath \<Rightarrow>
          (case json_MarshalIndent_Token E token of
             None \<Rightarrow> (Some ErrMarshalToken, w)
           | Some data \<Rightarrow>
               (case os_MkdirAll (files w) (filepath_Dir tokenPath) owner_rwx of
                  Inl e \<Rightarrow> (Some (ErrCreateTokenDir e), w)
                | Inr s1 \<Rightarrow>
                    (case os_WriteFile s1 tokenPath data owner_rw of
                       Inl e \<Rightarrow> (Some (ErrWriteToken e), w\<lparr>files := s1\<rparr>)
                     | Inr s2 \<Rightarrow> (None, w\<lparr>files := s2\<rparr>)))))"

text \<open>\<^verbatim>\<open>PerformOAuthFlow\<close>: the configuration, the session up to the stop of the
  server, then the exchange, the token file and the look-up of the primary calendar.
  What it prints and the browser it tries to open leave no trace here.\<close>

definition PerformOAuthFlow :: "env \<Rightarrow> string \<Rightarrow> world \<Rightarrow> (err + string) \<times> world" where
  "PerformOAuthFlow E accountName w =
     (case GetOAuthConfig E (files w) of
        Inl e \<Rightarrow> (Inl e, w)
      | Inr config0 \<Rightarrow>
          (let config = config0\<lparr>RedirectURL := ''http://localhost:8089/callback''\<rparr>;
               r = await (schedule E) new_session;
               w1 = w\<lparr>sessions := sessions w @ [fst (snd r)]\<rparr>
           in case fst r of
                GotErr e \<Rightarrow> (Inl e, w1)
              | TimedOut \<Rightarrow> (Inl ErrTimeout, w1)
              | GotCode code \<Rightarrow>
                  (case oauth2_Exchange E config code of
                     None \<Rightarrow> (Inl ErrExchange, w1)
                   | Some token \<Rightarrow>
                       (case SaveToken E accountName token w1 of
                          (Some e, w2) \<Rightarrow> (Inl e, w2)
                        | (None, w2) \<Rightarrow>
                            (if \<not> calendar_NewService E config token
                             then (Inl ErrCreateService, w2)
                             else (case CalendarList_Get_primary E token of
                                     None \<Rightarrow> (Inl ErrPrimaryCalendar, w2)
                                   | Some email \<Rightarrow> (Inr email, w2)))))))"

text \<open>\<^verbatim>\<open>AddAccount\<close> of config.go, which calls \<^verbatim>\<open>PerformOAuthFlow\<close>.\<close>

definition AddAccount :: "env \<Rightarrow> string \<Rightarrow> world \<Rightarrow> err option \<times> world" where
  "AddAccount E name w =
     (case LoadConfig E (files w) of
        Inl e \<Rightarrow> (Some e, w)
      | Inr config \<Rightarrow>
          (if Accounts config name \<noteq> None then (Some (ErrAccountExists name), w)
           else (case GetCredentialsPath E of
                   Inl e \<Rightarrow> (Some e, w)
                 | Inr credPath \<Rightarrow>
                     (if os_Stat (files w) credPath = Inl ENOENT
                      then (Some (ErrCredentialsMissing
                                    (filepath_Join
                                       (case GetConfigDir E of Inl _ \<Rightarrow> [] | Inr d \<Rightarrow> d)
                                       [''credentials.json''])), w)
                      else (case PerformOAuthFlow E name w of
                              (Inl e, w1) \<Rightarrow> (Some (ErrOAuthFlow e), w1)
                            | (Inr email, w1) \<Rightarrow>
                                SaveConfig E
                                  (config\<lparr>Accounts :=
                                     (Accounts config)(name \<mapsto> \<lparr>Name = name, Email = email\<rparr>)\<rparr>)
                                  w1)))))"

section \<open>Notions used in the properties\<close>

text \<open>The signal that the \<^verbatim>\<open>select\<close> of a run takes, the session when the
  coordinator has stopped the server, and the configuration with the redirect address
  that \<^verbatim>\<open>PerformOAuthFlow\<close> sets.\<close>

definition flow_signal :: "env \<Rightarrow> signal" where
  "flow_signal E = fst (await (schedule E) new_session)"

definition flow_session :: "env \<Rightarrow> session" where
  "flow_session E = fst (snd (await (schedule E) new_session))"

definition flow_config :: "oauth2_Config \<Rightarrow> oauth2_Config" where
  "flow_config c = c\<lparr>RedirectURL := ''http://localhost:8089/callback''\<rparr>"

text \<open>Whether an action can put a value on a channel: any at all, one on
  \<^verbatim>\<open>codeChan\<close>, one on \<^verbatim>\<open>errChan\<close>.\<close>

fun delivers :: "action \<Rightarrow> bool" where
  "delivers (ServerStart bound) = (\<not> bound)"
| "delivers (Callback code) = True"
| "delivers (Stdin r) =
     (case r of None \<Rightarrow> False | Some line \<Rightarrow> strings_TrimSpace line \<noteq> [])"
| "delivers _ = False"

fun sends_code :: "action \<Rightarrow> bool" where
  "sends_code (Callback code) = (code \<noteq> [])"
| "sends_code (Stdin r) =
     (case r of None \<Rightarrow> False | Some line \<Rightarrow> strings_TrimSpace line \<noteq> [])"
| "sends_code _ = False"

fun sends_err :: "action \<Rightarrow> bool" where
  "sends_err (Callback code) = (code = [])"
| "sends_err (ServerStart bound) = (\<not> bound)"
| "sends_err _ = False"

fun is_Stdin :: "action \<Rightarrow> bool" where
  "is_Stdin (Stdin r) = True"
| "is_Stdin _ = False"

fun is_EnterSelect :: "action \<Rightarrow> bool" where
  "is_EnterSelect (EnterSelect b) = True"
| "is_EnterSelect _ = False"

text \<open>The two sides of the invariant of the specification: the account has a token
  file, and the account is listed in the configuration on disk.\<close>

definition is_file :: "node option \<Rightarrow> bool" where
  "is_file x = (case x of Some (File _ _) \<Rightarrow> True | _ \<Rightarrow> False)"

definition token_file_exists :: "env \<Rightarrow> fs \<Rightarrow> string \<Rightarrow> bool" where
  "token_file_exists E s a =
     (case GetTokenPath E a of
        Inl _ \<Rightarrow> False
      | Inr p \<Rightarrow> (case map_of s p of Some (File _ _) \<Rightarrow> True | _ \<Rightarrow> False))"

definition listed :: "env \<Rightarrow> fs \<Rightarrow> string \<Rightarrow> bool" where
  "listed E s a = (case LoadConfig E s of Inl _ \<Rightarrow> False | Inr c \<Rightarrow> Accounts c a \<noteq> None)"

text \<open>A store is well formed when every entry other than the root lies in a directory
  of the store, as in a file system.\<close>

definition wf_fs :: "fs \<Rightarrow> bool" where
  "wf_fs s =
     list_all (\<lambda>(p, n). p = [] \<or> (case map_of s (butlast p) of
                                       Some (Dir _) \<Rightarrow> True
                                     | _ \<Rightarrow> False)) s"

text \<open>The JSON library keeps an account: a configuration that it encodes decodes to one
  that lists the account exactly when the encoded one does.\<close>

definition codec_keeps :: "env \<Rightarrow> string \<Rightarrow> bool" where
  "codec_keeps E a =
     (\<forall>c d. json_MarshalIndent_Config E c = Some d \<longrightarrow>
        (case json_Unmarshal_Config E d of
           None \<Rightarrow> False
         | Some None \<Rightarrow> Accounts c a = None
         | Some (Some m) \<Rightarrow> (m a = None) = (Accounts c a = None)))"

text \<open>Account names are joined into paths as they are, so a name such as
  \<^verbatim>\<open>../config\<close> has the configuration file as its token file, and two names can
  have the same token file.\<close>

definition aliases_config :: "env \<Rightarrow> string \<Rightarrow> bool" where
  "aliases_config E a =
     (case GetConfigDir E of
        Inl _ \<Rightarrow> False
      | Inr dir \<Rightarrow> GetTokenPath E a = Inr (filepath_Join dir [''config.json'']))"

definition apart :: "env \<Rightarrow> string \<Rightarrow> string \<Rightarrow> bool" where
  "apart E a b = (GetTokenPath E b \<noteq> GetTokenPath E a \<and> \<not> aliases_config E b)"

text \<open>Invariants of a session, for the proofs: a coordinator that has left has closed the
  server; nothing has been delivered; the errors in flight are the listener's; a channel
  of capacity one holds at most one value and parks senders only when it is full.\<close>

definition exited_closed :: "session \<Rightarrow> bool" where
  "exited_closed s = (case coord s of Exited g \<Rightarrow> server s = Closed | _ \<Rightarrow> True)"

definition quiet :: "session \<Rightarrow> bool" where
  "quiet s =
     (buf (codeChan s) = [] \<and> buf (errChan s) = []
      \<and> (case coord s of
            Resolved g \<Rightarrow> g = TimedOut
          | Exited g \<Rightarrow> g = TimedOut
          | _ \<Rightarrow> True))"



definition chan_ok :: "'a chan \<Rightarrow> bool" where
  "chan_ok c =
     (cap c = 1 \<and> length (buf c) \<le> 1 \<and> (sendq c \<noteq> [] \<longrightarrow> length (buf c) = 1))"

definition pending :: "'a chan \<Rightarrow> nat" where
  "pending c = length (buf c) + length (sendq c)"

section \<open>An example world\<close>

text \<open>
  A concrete world for the examples: the home directory \<^verbatim>\<open>/home/u\<close> with the
  credentials file in place, a JSON library known at the values the examples use, a
  provider that accepts the code \<^verbatim>\<open>abc123\<close>, and a session in which the browser
  calls back with that code while the coordinator waits. The JSON library of the example
  encodes the configurations that list nothing or the account \<^verbatim>\<open>work\<close> alone.
\<close>

definition quoted :: "string \<Rightarrow> string" where
  "quoted s = CHR 0x22 # s @ [CHR 0x22]"

definition ex_token :: Token where
  "ex_token =
     \<lparr>AccessToken = ''ya29.a0Af'', TokenType = ''Bearer'', RefreshToken = ''1//0gLx'',
      Expiry = 1790000000\<rparr>"

definition ex_token_json :: string where
  "ex_token_json =
     ''{'' @ quoted ''access_token'' @ '': '' @ quoted ''ya29.a0Af'' @ '', ''
       @ quoted ''token_type'' @ '': '' @ quoted ''Bearer'' @ '', ''
       @ quoted ''refresh_token'' @ '': '' @ quoted ''1//0gLx'' @ '', ''
       @ quoted ''expiry'' @ '': '' @ quoted ''2026-09-21T14:13:20Z'' @ ''}''"

definition ex_account :: AccountConfig where
  "ex_account = \<lparr>Name = ''work'', Email = ''me@example.com''\<rparr>"

definition ex_config_json :: string where
  "ex_config_json =
     ''{'' @ quoted ''accounts'' @ '': {'' @ quoted ''work'' @ '': {''
       @ quoted ''name'' @ '': '' @ quoted ''work'' @ '', ''
       @ quoted ''email'' @ '': '' @ quoted ''me@example.com'' @ ''}}}''"

definition ex_empty_config_json :: string where
  "ex_empty_config_json = ''{'' @ quoted ''accounts'' @ '': {}}''"

definition ex_oauth :: oauth2_Config where
  "ex_oauth =
     \<lparr>ClientID = ''id.apps.googleusercontent.com'', ClientSecret = ''secret'',
      RedirectURL = ''http://localhost'', Scopes = oauthScopes\<rparr>"

definition ex_env :: env where
  "ex_env =
     \<lparr>HOME = ''/home/u'',
      json_Unmarshal_Token = (\<lambda>d. if d = ex_token_json then Some ex_token else None),
      json_MarshalIndent_Token = (\<lambda>t. if t = ex_token then Some ex_token_json else None),
      json_Unmarshal_Config =
        (\<lambda>d. if d = ex_config_json then Some (Some [''work'' \<mapsto> ex_account])
             else if d = ex_empty_config_json then Some (Some Map.empty)
             else None),
      json_MarshalIndent_Config =
        (\<lambda>c. case Accounts c ''personal'' of
               Some _ \<Rightarrow> None
             | None \<Rightarrow>
                 (case Accounts c ''work'' of
                    None \<Rightarrow> Some ex_empty_config_json
                  | Some a \<Rightarrow> if a = ex_account then Some ex_config_json else None)),
      google_ConfigFromJSON =
        (\<lambda>d scopes. if d = ''{installed}'' then Some (ex_oauth\<lparr>Scopes := scopes\<rparr>) else None),
      oauth2_Exchange = (\<lambda>c code. if code = ''abc123'' then Some ex_token else None),
      calendar_NewService = (\<lambda>c t. True),
      CalendarList_Get_primary = (\<lambda>t. Some ''me@example.com''),
      schedule = [ServerStart True, EnterSelect False, Callback ''abc123'', StopServer]\<rparr>"

definition ex_dir :: path where
  "ex_dir = [''home'', ''u'', ''.config'', ''gcal-readonly-mcp'']"

definition ex_files :: fs where
  "ex_files =
     [([], Dir 493), ([''home''], Dir 493), ([''home'', ''u''], Dir owner_rwx),
      ([''home'', ''u'', ''.config''], Dir owner_rwx), (ex_dir, Dir owner_rwx),
      (ex_dir @ [''credentials.json''], File ''{installed}'' owner_rw)]"

definition ex_world :: world where
  "ex_world = \<lparr>files = ex_files, sessions = []\<rparr>"

text \<open>Variations: the account \<^verbatim>\<open>work\<close> listed and without a token file; a token
  file that is not JSON; a provider whose calendar look-up fails; a provider that rejects
  the code; a session in which only a blank line is typed; and a session in which the
  callback arrives between the timer and the stop of the server, and a line is typed
  afterwards.\<close>

definition ex_listed_world :: world where
  "ex_listed_world =
     \<lparr>files = ex_files @ [(ex_dir @ [''config.json''], File ex_config_json owner_rw)],
      sessions = []\<rparr>"


definition ex_env_no_identity :: env where
  "ex_env_no_identity = ex_env\<lparr>CalendarList_Get_primary := (\<lambda>t. None)\<rparr>"

definition ex_env_no_exchange :: env where
  "ex_env_no_exchange = ex_env\<lparr>oauth2_Exchange := (\<lambda>c code. None)\<rparr>"

definition ex_env_timeout :: env where
  "ex_env_timeout =
     ex_env\<lparr>schedule :=
       [ServerStart True, EnterSelect False, Stdin (Some ''  \<newline>''), TimerFires,
        StopServer]\<rparr>"

definition ex_blocking_schedule :: "action list" where
  "ex_blocking_schedule =
     [ServerStart True, EnterSelect False, TimerFires, Callback ''abc123'', StopServer,
      Stdin (Some ''xyz\<newline>'')]"

definition ex_env_late :: env where
  "ex_env_late = ex_env\<lparr>schedule := ex_blocking_schedule\<rparr>"

text \<open>Further variations: the account listed and its token file in a directory that
  does not allow changes; and a token file left from before that its owner may write and
  not read.\<close>

definition ex_locked_world :: world where
  "ex_locked_world =
     \<lparr>files = ex_files @
        [(ex_dir @ [''tokens''], Dir (5 * 64)),
         (ex_dir @ [''tokens'', ''work.json''], File ex_token_json owner_rw),
         (ex_dir @ [''config.json''], File ex_config_json owner_rw)],
      sessions = []\<rparr>"

definition ex_writeonly_world :: world where
  "ex_writeonly_world =
     \<lparr>files = ex_files @
        [(ex_dir @ [''tokens''], Dir owner_rwx),
         (ex_dir @ [''tokens'', ''work.json''], File ''old'' (2 * 64))],
      sessions = []\<rparr>"

section \<open>The file store\<close>

declare os_MkdirAll.simps [simp del]

lemma map_of_update [simp]: "map_of (AList.update k v al) = (map_of al)(k \<mapsto> v)"
  by (rule update_conv')

lemma map_of_delete [simp]: "map_of (AList.delete k al) = (map_of al)(k := None)"
  by (rule delete_conv')

lemma can_read_owner_rw: "can_read owner_rw"
  by (simp add: can_read_def owner_rw_def)

lemma ancestors_not_self: "p \<notin> set (ancestors p)"
proof
  assume "p \<in> set (ancestors p)"
  then obtain n where "n < length p" "p = take n p" by (auto simp: ancestors_def)
  then have "length p = n" by (metis length_take min.absorb2 less_imp_le)
  with \<open>n < length p\<close> show False by simp
qed

lemma check_dirs_cong:
  "\<forall>q \<in> set qs. map_of s' q = map_of s q \<Longrightarrow> check_dirs s' qs = check_dirs s qs"
  by (induction qs) (auto split: option.splits node.splits)

lemma traverse_update_self: "traverse (AList.update p n s) p = traverse s p"
  unfolding traverse_def
  by (rule check_dirs_cong) (use ancestors_not_self[of p] in auto)

text \<open>A file that is written holds the bytes given; it keeps the mode it had, or gets
  the mode given when it is new; its path resolves; and nothing else changes.\<close>

lemma WriteFile_node:
  "os_WriteFile s p d perm = Inr s' \<Longrightarrow>
     (\<exists>m. map_of s' p = Some (File d m)
        \<and> (m = perm \<and> map_of s p = None \<or> (\<exists>d0. map_of s p = Some (File d0 m))))
     \<and> (\<forall>q. q \<noteq> p \<longrightarrow> map_of s' q = map_of s q)
     \<and> traverse s' p = None"
  by (auto simp: os_WriteFile_def traverse_update_self
      split: option.splits node.splits if_splits)

lemma Mkdir_node:
  "os_Mkdir s p perm = Inr s' \<Longrightarrow>
     map_of s p = None \<and> map_of s' p = Some (Dir perm)
     \<and> (\<forall>q. q \<noteq> p \<longrightarrow> map_of s' q = map_of s q)"
  by (auto simp: os_Mkdir_def split: option.splits node.splits if_splits)

lemma mkdir_or_exists_node:
  "mkdir_or_exists s p perm = Inr s' \<Longrightarrow>
     s' = s \<or> (map_of s p = None \<and> map_of s' p = Some (Dir perm)
     \<and> (\<forall>q. q \<noteq> p \<longrightarrow> map_of s' q = map_of s q))"
  by (auto simp: mkdir_or_exists_def dest!: Mkdir_node split: sum.splits node.splits)

text \<open>\<^verbatim>\<open>os.MkdirAll\<close> leaves what exists as it is, and adds directories only.\<close>

lemma MkdirAll_keeps:
  "os_MkdirAll s p perm = Inr s' \<Longrightarrow> map_of s q = Some n \<Longrightarrow> map_of s' q = Some n"
proof (induction s p perm arbitrary: s' rule: os_MkdirAll.induct)
  case (1 s p perm)
  show ?case
  proof (cases "os_Stat s p")
    case (Inl e)
    show ?thesis
    proof (cases "p = []")
      case True
      with Inl "1.prems" have "mkdir_or_exists s p perm = Inr s'"
        by (simp add: os_MkdirAll.simps)
      from mkdir_or_exists_node[OF this] "1.prems"(2) show ?thesis by (cases "q = p") auto
    next
      case False
      with Inl "1.prems" obtain s1 where
        a: "os_MkdirAll s (butlast p) perm = Inr s1" and b: "mkdir_or_exists s1 p perm = Inr s'"
        by (auto simp: os_MkdirAll.simps[of s p] split: sum.splits)
      have "map_of s1 q = Some n"
        using "1.IH"[OF Inl False a "1.prems"(2)] .
      with mkdir_or_exists_node[OF b] show ?thesis by (cases "q = p") auto
    qed
  next
    case (Inr nd)
    with "1.prems" show ?thesis
      by (cases nd) (auto simp: os_MkdirAll.simps[of s p])
  qed
qed

lemma MkdirAll_adds_dirs:
  "os_MkdirAll s p perm = Inr s' \<Longrightarrow> map_of s q = None \<Longrightarrow>
     map_of s' q = None \<or> map_of s' q = Some (Dir perm)"
proof (induction s p perm arbitrary: s' rule: os_MkdirAll.induct)
  case (1 s p perm)
  show ?case
  proof (cases "os_Stat s p")
    case (Inl e)
    show ?thesis
    proof (cases "p = []")
      case True
      with Inl "1.prems" have "mkdir_or_exists s p perm = Inr s'"
        by (simp add: os_MkdirAll.simps)
      from mkdir_or_exists_node[OF this] "1.prems"(2) show ?thesis by (cases "q = p") auto
    next
      case False
      with Inl "1.prems" obtain s1 where
        a: "os_MkdirAll s (butlast p) perm = Inr s1" and b: "mkdir_or_exists s1 p perm = Inr s'"
        by (auto simp: os_MkdirAll.simps[of s p] split: sum.splits)
      have "map_of s1 q = None \<or> map_of s1 q = Some (Dir perm)"
        using "1.IH"[OF Inl False a "1.prems"(2)] .
      with mkdir_or_exists_node[OF b] show ?thesis by (cases "q = p") auto
    qed
  next
    case (Inr nd)
    with "1.prems" show ?thesis
      by (cases nd) (auto simp: os_MkdirAll.simps[of s p])
  qed
qed

lemma MkdirAll_is_file:
  assumes "os_MkdirAll s p perm = Inr s'"
  shows "is_file (map_of s' q) = is_file (map_of s q)"
proof (cases "map_of s q")
  case None
  with MkdirAll_adds_dirs[OF assms None] show ?thesis by (auto simp: is_file_def)
next
  case (Some n)
  with MkdirAll_keeps[OF assms Some] show ?thesis by simp
qed

lemma MkdirAll_file:
  assumes "os_MkdirAll s p perm = Inr s'"
  shows "(map_of s' q = Some (File d m)) = (map_of s q = Some (File d m))"
proof (cases "map_of s q")
  case None
  with MkdirAll_adds_dirs[OF assms None] show ?thesis by auto
next
  case (Some n)
  with MkdirAll_keeps[OF assms Some] show ?thesis by simp
qed

text \<open>\<^verbatim>\<open>os.Remove\<close> changes the entry it is given at most; when it fails the entry
  stays.\<close>

lemma Remove_ok:
  "os_Remove s p = Inr s' \<Longrightarrow> map_of s' p = None \<and> (\<forall>q. q \<noteq> p \<longrightarrow> map_of s' q = map_of s q)"
  by (auto simp: os_Remove_def split: option.splits node.splits if_splits)

lemma Remove_frame:
  "q \<noteq> p \<Longrightarrow> map_of (case os_Remove s p of Inl _ \<Rightarrow> s | Inr s' \<Rightarrow> s') q = map_of s q"
  by (cases "os_Remove s p") (auto dest: Remove_ok)

lemma Remove_at:
  "is_file (map_of (case os_Remove s p of Inl _ \<Rightarrow> s | Inr s' \<Rightarrow> s') p)
     = (is_file (map_of s p) \<and> (\<exists>e. os_Remove s p = Inl e))"
  by (cases "os_Remove s p") (auto dest: Remove_ok simp: is_file_def)

lemma Remove_absent:
  "map_of s p = None \<Longrightarrow> (case os_Remove s p of Inl _ \<Rightarrow> s | Inr s' \<Rightarrow> s') = s"
  by (auto simp: os_Remove_def split: option.splits sum.splits)

text \<open>In a well-formed store the directories on the way to an entry exist, so resolving
  its path can fail only where a directory does not allow the search.\<close>

lemma wf_parent:
  "wf_fs s \<Longrightarrow> map_of s p = Some n \<Longrightarrow> p \<noteq> [] \<Longrightarrow> \<exists>m. map_of s (butlast p) = Some (Dir m)"
  by (auto simp: wf_fs_def list_all_iff dest!: map_of_SomeD split: option.splits node.splits)

lemma wf_ancestors:
  "wf_fs s \<Longrightarrow> map_of s p = Some n \<Longrightarrow> k < length p \<Longrightarrow> \<exists>m. map_of s (take k p) = Some (Dir m)"
proof (induction p arbitrary: n rule: rev_induct)
  case Nil
  then show ?case by simp
next
  case (snoc x xs)
  from wf_parent[OF snoc.prems(1,2)] obtain m where m: "map_of s xs = Some (Dir m)" by auto
  show ?case
  proof (cases "k = length xs")
    case True
    with m show ?thesis by simp
  next
    case False
    with snoc.prems(3) have "k < length xs" by simp
    with snoc.IH[OF snoc.prems(1) m] show ?thesis by simp
  qed
qed

lemma check_dirs_dirs:
  "\<forall>q \<in> set qs. \<exists>m. map_of s q = Some (Dir m) \<Longrightarrow>
     check_dirs s qs = None \<or> check_dirs s qs = Some EACCES"
  by (induction qs) (auto split: if_splits)

lemma wf_traverse:
  assumes "wf_fs s" and "map_of s p = Some n"
  shows "traverse s p = None \<or> traverse s p = Some EACCES"
  unfolding traverse_def
  by (rule check_dirs_dirs) (auto simp: ancestors_def dest: wf_ancestors[OF assms])

section \<open>Tokens on disk\<close>

text \<open>What \<^verbatim>\<open>SaveToken\<close> leaves when it returns no error.\<close>

lemma SaveToken_written:
  assumes "SaveToken E a t w = (None, w')"
  shows "\<exists>p d m. GetTokenPath E a = Inr p \<and> json_MarshalIndent_Token E t = Some d
           \<and> map_of (files w') p = Some (File d m) \<and> traverse (files w') p = None
           \<and> (m = owner_rw \<and> \<not> is_file (map_of (files w) p)
                \<or> (\<exists>d0. map_of (files w) p = Some (File d0 m)))"
proof -
  from assms obtain p d s1 s2 where
    p: "GetTokenPath E a = Inr p" and d: "json_MarshalIndent_Token E t = Some d" and
    mk: "os_MkdirAll (files w) (filepath_Dir p) owner_rwx = Inr s1" and
    wr: "os_WriteFile s1 p d owner_rw = Inr s2" and w': "w' = w\<lparr>files := s2\<rparr>"
    by (auto simp: SaveToken_def split: sum.splits option.splits)
  from WriteFile_node[OF wr] obtain m where
    m: "map_of s2 p = Some (File d m)" "traverse s2 p = None"
      "m = owner_rw \<and> map_of s1 p = None \<or> (\<exists>d0. map_of s1 p = Some (File d0 m))"
    by auto
  from m(3) MkdirAll_file[OF mk, of p] MkdirAll_is_file[OF mk, of p]
  have "m = owner_rw \<and> \<not> is_file (map_of (files w) p)
                \<or> (\<exists>d0. map_of (files w) p = Some (File d0 m))"
    by (auto simp: is_file_def)
  with p d m w' show ?thesis by auto
qed

lemma SaveToken_node:
  assumes "SaveToken E a t w = (None, w')"
  shows "\<exists>p. GetTokenPath E a = Inr p \<and> is_file (map_of (files w') p)"
  using SaveToken_written[OF assms] by (auto simp: is_file_def)

lemma SaveToken_sessions: "SaveToken E a t w = (r, w') \<Longrightarrow> sessions w' = sessions w"
  by (auto simp: SaveToken_def split: sum.splits option.splits)

lemma SaveToken_frame:
  assumes "SaveToken E a t w = (r, w')" and "GetTokenPath E a \<noteq> Inr q"
  shows "is_file (map_of (files w') q) = is_file (map_of (files w) q)"
  using assms
  by (auto simp: SaveToken_def dest!: WriteFile_node MkdirAll_is_file[where q = q]
      split: sum.splits option.splits)


lemma ex_token_path: "GetTokenPath ex_env ''work'' = Inr (ex_dir @ [''tokens'', ''work.json''])"
  by code_simp

text \<open>
  Claim C6, as the code has it. For every account name \<open>a\<close> and every credential
  \<open>c\<close>: when \<^verbatim>\<open>SaveToken\<close> has saved \<open>c\<close> for \<open>a\<close>, and the token file of \<open>a\<close>, if
  there was one before the save, could be read by its owner, \<^verbatim>\<open>LoadToken\<close> of \<open>a\<close>
  returns \<open>c\<close>. Both go through the same token file: a file that exists keeps its mode
  when it is written, and a new one gets the mode that lets its owner read and write. The
  JSON library is taken to decode what it encoded for \<open>c\<close>.
\<close>

theorem SaveToken_LoadToken_roundtrip:
  assumes "SaveToken E a c w = (None, w')"
    and "\<forall>d. json_MarshalIndent_Token E c = Some d \<longrightarrow> json_Unmarshal_Token E d = Some c"
    and "\<forall>p d0 m. GetTokenPath E a = Inr p \<and> map_of (files w) p = Some (File d0 m)
           \<longrightarrow> can_read m"
  shows "LoadToken E a (files w') = Inr c"
proof -
  from SaveToken_written[OF assms(1)] obtain p d m where
    p: "GetTokenPath E a = Inr p" and d: "json_MarshalIndent_Token E c = Some d" and
    f: "map_of (files w') p = Some (File d m)" "traverse (files w') p = None" and
    m: "m = owner_rw \<and> \<not> is_file (map_of (files w) p)
                \<or> (\<exists>d0. map_of (files w) p = Some (File d0 m))"
    by blast
  from m assms(3) p have "can_read m" by (auto simp: can_read_owner_rw)
  with f have "os_ReadFile (files w') p = Inr d" by (simp add: os_ReadFile_def)
  with p d assms(2) show ?thesis by (simp add: LoadToken_def)
qed

text \<open>In the example world the token of the example is saved for \<^verbatim>\<open>work\<close>, which
  had no token file, and read back.\<close>

theorem SaveToken_LoadToken_roundtrip_witness:
  "LoadToken ex_env ''work'' (files (snd (SaveToken ex_env ''work'' ex_token ex_world)))
     = Inr ex_token"
proof -
  have "fst (SaveToken ex_env ''work'' ex_token ex_world) = None" by code_simp
  then have s: "SaveToken ex_env ''work'' ex_token ex_world
      = (None, snd (SaveToken ex_env ''work'' ex_token ex_world))"
    by (metis prod.collapse)
  have d: "\<forall>d. json_MarshalIndent_Token ex_env ex_token = Some d \<longrightarrow>
        json_Unmarshal_Token ex_env d = Some ex_token"
    by (simp add: ex_env_def)
  have n: "map_of (files ex_world) (ex_dir @ [''tokens'', ''work.json'']) = None" by code_simp
  have r: "\<forall>p d0 m. GetTokenPath ex_env ''work'' = Inr p
      \<and> map_of (files ex_world) p = Some (File d0 m) \<longrightarrow> can_read m"
    using n by (simp add: ex_token_path)
  from SaveToken_LoadToken_roundtrip[OF s d r] show ?thesis .
qed

text \<open>As first stated, for every save, the claim fails. In the world where the token file
  of \<^verbatim>\<open>work\<close> was left with a mode that lets its owner write and not read,
  \<^verbatim>\<open>SaveToken\<close> writes the token into that file, which keeps its mode, and
  \<^verbatim>\<open>LoadToken\<close> returns the error of the read: permission denied.\<close>

theorem SaveToken_LoadToken_unreadable:
  "fst (SaveToken ex_env ''work'' ex_token ex_writeonly_world) = None
   \<and> json_MarshalIndent_Token ex_env ex_token = Some ex_token_json
   \<and> json_Unmarshal_Token ex_env ex_token_json = Some ex_token
   \<and> LoadToken ex_env ''work''
        (files (snd (SaveToken ex_env ''work'' ex_token ex_writeonly_world)))
       = Inl (ErrOs EACCES)"
  by code_simp




section \<open>Accounts in the configuration\<close>

lemma ex_config_dir: "GetConfigDir ex_env = Inr ex_dir"
  by code_simp

lemma ex_config_path: "filepath_Join ex_dir [''config.json''] = ex_dir @ [''config.json'']"
  by code_simp

lemma ex_LoadConfig: "LoadConfig ex_env (files ex_world) = Inr \<lparr>Accounts = Map.empty\<rparr>"
proof -
  have "os_ReadFile (files ex_world) (ex_dir @ [''config.json'']) = Inl ENOENT" by code_simp
  then show ?thesis by (simp add: LoadConfig_def ex_config_dir ex_config_path)
qed

lemma ex_config_decoded:
  "json_Unmarshal_Config ex_env ex_config_json = Some (Some [''work'' \<mapsto> ex_account])"
  by (simp add: ex_env_def)

lemma ex_listed_LoadConfig:
  "LoadConfig ex_env (files ex_listed_world) = Inr \<lparr>Accounts = [''work'' \<mapsto> ex_account]\<rparr>"
proof -
  have "os_ReadFile (files ex_listed_world) (ex_dir @ [''config.json'']) = Inr ex_config_json"
    by code_simp
  then show ?thesis
    by (simp add: LoadConfig_def ex_config_dir ex_config_path ex_config_decoded)
qed

text \<open>
  Claim C1, as the code has it. For every account name that is not listed in the
  configuration, \<^verbatim>\<open>RemoveAccount\<close> returns the error that the account is not
  found and changes nothing. For a listed account, the absence of its token file is not an error: the
  removal is then the saving of the configuration without the account.
\<close>

theorem RemoveAccount_unlisted_or_no_token:
  assumes "LoadConfig E (files w) = Inr config"
  shows "(Accounts config name = None \<longrightarrow>
            RemoveAccount E name w = (Some (ErrAccountNotFound name), w))
       \<and> (\<forall>p. Accounts config name \<noteq> None \<and> GetTokenPath E name = Inr p
               \<and> map_of (files w) p = None \<longrightarrow>
            RemoveAccount E name w =
              SaveConfig E (config\<lparr>Accounts := (Accounts config)(name := None)\<rparr>) w)"
  using assms by (auto simp: RemoveAccount_def Remove_absent)

text \<open>In the example world \<^verbatim>\<open>ghost\<close> is not listed; in the world that lists
  \<^verbatim>\<open>work\<close> without a token file, its removal succeeds.\<close>

theorem RemoveAccount_unlisted_or_no_token_witness:
  "RemoveAccount ex_env ''ghost'' ex_world = (Some (ErrAccountNotFound ''ghost''), ex_world)
   \<and> fst (RemoveAccount ex_env ''work'' ex_listed_world) = None"
proof -
  have a: "RemoveAccount ex_env ''ghost'' ex_world
             = (Some (ErrAccountNotFound ''ghost''), ex_world)"
    using RemoveAccount_unlisted_or_no_token[OF ex_LoadConfig, of "''ghost''"] by simp
  have p: "map_of (files ex_listed_world) (ex_dir @ [''tokens'', ''work.json'']) = None"
    by code_simp
  have "RemoveAccount ex_env ''work'' ex_listed_world =
      SaveConfig ex_env
        (\<lparr>Accounts = [''work'' \<mapsto> ex_account]\<rparr>
           \<lparr>Accounts := [''work'' \<mapsto> ex_account](''work'' := None)\<rparr>)
        ex_listed_world"
    using RemoveAccount_unlisted_or_no_token[OF ex_listed_LoadConfig, of "''work''"]
      ex_token_path p
    by simp
  moreover have "fst (SaveConfig ex_env
        (\<lparr>Accounts = [''work'' \<mapsto> ex_account]\<rparr>
           \<lparr>Accounts := [''work'' \<mapsto> ex_account](''work'' := None)\<rparr>)
        ex_listed_world) = None"
    by code_simp
  ultimately show ?thesis using a by simp
qed

text \<open>As first stated, with success for an account that is not listed, the claim fails:
  in the example world the account \<^verbatim>\<open>ghost\<close> is not listed, and
  \<^verbatim>\<open>RemoveAccount\<close> returns an error for it.\<close>

theorem RemoveAccount_ghost_fails:
  "\<not> listed ex_env (files ex_world) ''ghost''
   \<and> fst (RemoveAccount ex_env ''ghost'' ex_world) = Some (ErrAccountNotFound ''ghost'')"
  by code_simp

text \<open>
  Claim C9. For every account name that the configuration lists already,
  \<^verbatim>\<open>AddAccount\<close> returns the error that the account exists, and the world is the one
  before the call: no session has been started, so no port bound, and no file has
  changed.
\<close>

theorem AddAccount_existing_account:
  assumes "LoadConfig E (files w) = Inr config" and "Accounts config name \<noteq> None"
  shows "AddAccount E name w = (Some (ErrAccountExists name), w)"
  using assms by (simp add: AddAccount_def)

theorem AddAccount_existing_account_witness:
  "AddAccount ex_env ''work'' ex_listed_world
     = (Some (ErrAccountExists ''work''), ex_listed_world)"
  using AddAccount_existing_account[OF ex_listed_LoadConfig, of "''work''"] by simp

section \<open>Sessions\<close>

lemmas step_defs = server_goroutine_def callback_handler_def manual_reader_def
  enter_select_def timer_fires_def stop_server_def deliver_code_def deliver_err_def
  recv_code_def recv_err_def server_Close_def server_Shutdown_def

subsection \<open>The server stays closed\<close>

lemma step_server_closed: "server s = Closed \<Longrightarrow> server (step a s) = Closed"
  by (cases a)
     (auto simp: step_defs Let_def split: option.splits coord.splits signal.splits prod.splits)

lemma run_server_closed: "server s = Closed \<Longrightarrow> server (run sched s) = Closed"
  by (induction sched arbitrary: s) (auto simp: step_server_closed)

lemma step_exited_closed: "exited_closed s \<Longrightarrow> exited_closed (step a s)"
  by (cases a)
     (auto simp: exited_closed_def step_defs Let_def
           split: option.splits coord.splits signal.splits prod.splits if_splits)

lemma chan_recv_Some: "buf c \<noteq> [] \<Longrightarrow> \<exists>v c'. chan_recv c = Some (v, c')"
  by (cases "buf c") (auto simp: chan_recv_def)

lemma enter_select_coord: "coord (enter_select b s) \<noteq> Running"
  by (auto simp: enter_select_def recv_code_def recv_err_def dest!: chan_recv_Some)

lemma finish_exited:
  "exited_closed s \<Longrightarrow>
     \<exists>g. coord (finish s) = Exited g \<and> outcome (finish s) = g \<and> server (finish s) = Closed"
  using enter_select_coord[of False s]
  apply (cases "coord (enter_select False s)")
     apply (auto simp: finish_def timer_fires_def stop_server_def outcome_def
      server_Close_def server_Shutdown_def split: coord.splits signal.splits)
     apply (auto simp: exited_closed_def enter_select_def recv_code_def recv_err_def
      split: if_splits option.splits prod.splits)
  done

lemma await_exited:
  "exited_closed s \<Longrightarrow> await sched s = (g, s', rest) \<Longrightarrow>
     coord s' = Exited g \<and> server s' = Closed"
proof (induction sched arbitrary: s)
  case Nil
  with finish_exited[OF Nil(1)] show ?case by auto
next
  case (Cons a sched)
  have e: "exited_closed (step a s)" using Cons.prems(1) by (rule step_exited_closed)
  show ?case
  proof (cases "coord (step a s)")
    case (Exited g')
    with Cons.prems(2) have "g = g'" "s' = step a s" by auto
    with Exited e show ?thesis by (simp add: exited_closed_def)
  qed (use Cons e in auto)
qed

lemma new_session_exited_closed: "exited_closed new_session"
  by (simp add: exited_closed_def new_session_def)

lemma flow_session_closed:
  "coord (flow_session E) = Exited (flow_signal E) \<and> server (flow_session E) = Closed"
  using await_exited[OF new_session_exited_closed, of "schedule E" "flow_signal E"
      "flow_session E" "snd (snd (await (schedule E) new_session))"]
  by (simp add: flow_signal_def flow_session_def)

subsection \<open>A session in which nothing is delivered times out\<close>

lemma step_quiet: "quiet s \<Longrightarrow> \<not> delivers a \<Longrightarrow> quiet (step a s)"
  by (cases a)
     (auto simp: quiet_def step_defs Let_def
           split: option.splits coord.splits signal.splits prod.splits if_splits)

lemma finish_quiet: "quiet s \<Longrightarrow> outcome (finish s) = TimedOut"
  by (auto simp: quiet_def finish_def outcome_def enter_select_def timer_fires_def
      stop_server_def server_Close_def server_Shutdown_def
      split: coord.splits signal.splits)

lemma await_quiet:
  "quiet s \<Longrightarrow> \<forall>a \<in> set sched. \<not> delivers a \<Longrightarrow> fst (await sched s) = TimedOut"
proof (induction sched arbitrary: s)
  case Nil
  then show ?case by (simp add: finish_quiet)
next
  case (Cons a sched)
  have q: "quiet (step a s)" using Cons.prems by (auto intro: step_quiet)
  show ?case
  proof (cases "coord (step a s)")
    case (Exited g)
    with q show ?thesis by (simp add: quiet_def)
  qed (use Cons q in auto)
qed

lemma new_session_quiet: "quiet new_session"
  by (simp add: quiet_def new_session_def make_chan_def)

text \<open>Once the coordinator is parked and the timer fires before anything is delivered,
  the timeout stands, whatever comes later.\<close>

lemma step_not_Running: "coord s \<noteq> Running \<Longrightarrow> coord (step a s) \<noteq> Running"
  by (cases a)
     (auto simp: step_defs Let_def
           split: option.splits coord.splits signal.splits prod.splits if_splits)

lemma step_EnterSelect_not_Running: "is_EnterSelect a \<Longrightarrow> coord (step a s) \<noteq> Running"
  by (cases a) (auto simp: enter_select_coord)

lemma step_Resolved:
  "coord s = Resolved g \<Longrightarrow> coord (step a s) = Resolved g \<or> coord (step a s) = Exited g"
  by (cases a)
     (auto simp: step_defs Let_def split: option.splits coord.splits signal.splits prod.splits)

lemma finish_Resolved: "coord s = Resolved g \<Longrightarrow> outcome (finish s) = g"
  by (cases g)
     (simp_all add: finish_def outcome_def enter_select_def timer_fires_def stop_server_def)

lemma await_Resolved: "coord s = Resolved g \<Longrightarrow> fst (await sched s) = g"
proof (induction sched arbitrary: s)
  case Nil
  then show ?case by (simp add: finish_Resolved)
next
  case (Cons a sched)
  from step_Resolved[OF Cons.prems, of a] show ?case
  proof
    assume "coord (step a s) = Resolved g"
    with Cons.IH[OF this] show ?thesis by simp
  next
    assume "coord (step a s) = Exited g"
    then show ?thesis by simp
  qed
qed

lemma await_timer_quiet:
  "quiet s \<Longrightarrow> \<forall>x \<in> set pre. \<not> delivers x \<Longrightarrow>
   coord s \<noteq> Running \<or> (\<exists>x \<in> set pre. is_EnterSelect x) \<Longrightarrow>
   fst (await (pre @ TimerFires # post) s) = TimedOut"
proof (induction pre arbitrary: s)
  case Nil
  then have nr: "coord s \<noteq> Running" by simp
  show ?case
  proof (cases "coord s")
    case Running
    with nr show ?thesis by simp
  next
    case Parked
    then have "coord (step TimerFires s) = Resolved TimedOut" by (simp add: timer_fires_def)
    from await_Resolved[OF this, of post] this show ?thesis by simp
  next
    case (Resolved g)
    with Nil(1) have g: "g = TimedOut" by (simp add: quiet_def)
    from Resolved have "coord (step TimerFires s) = Resolved g" by (simp add: timer_fires_def)
    from await_Resolved[OF this, of post] this g show ?thesis by simp
  next
    case (Exited g)
    with Nil(1) have g: "g = TimedOut" by (simp add: quiet_def)
    from Exited have "coord (step TimerFires s) = Exited g" by (simp add: timer_fires_def)
    with g show ?thesis by simp
  qed
next
  case (Cons a pre)
  have q: "quiet (step a s)" using Cons.prems by (auto intro: step_quiet)
  have nr: "coord (step a s) \<noteq> Running \<or> (\<exists>x \<in> set pre. is_EnterSelect x)"
    using Cons.prems(3) step_not_Running[of s a] step_EnterSelect_not_Running[of a s]
    by auto
  show ?case
  proof (cases "coord (step a s)")
    case (Exited g)
    with q show ?thesis by (simp add: quiet_def)
  qed (use Cons.IH[OF q _ nr] Cons.prems(2) in auto)
qed

subsection \<open>The errors of a session are the listener's\<close>







subsection \<open>The reader of standard input acts once\<close>

lemma step_reader_done: "reader_done s \<Longrightarrow> reader_done (step a s)"
  by (cases a)
     (auto simp: step_defs Let_def split: option.splits coord.splits signal.splits prod.splits)

lemma step_Stdin_done: "reader_done (step (Stdin r) s)"
  by (auto simp: step_defs Let_def split: option.splits)

lemma run_without_Stdin:
  "reader_done s \<Longrightarrow> run sched s = run (filter (\<lambda>x. \<not> is_Stdin x) sched) s"
proof (induction sched arbitrary: s)
  case (Cons a sched)
  have d: "reader_done (step a s)" using Cons.prems by (rule step_reader_done)
  show ?case
  proof (cases "is_Stdin a")
    case True
    then obtain r where "a = Stdin r" by (cases a) auto
    then have "step a s = s" using Cons.prems by (simp add: manual_reader_def)
    with True Cons show ?thesis by simp
  next
    case False
    with Cons.IH[OF d] show ?thesis by simp
  qed
qed simp

lemma step_Exited: "coord s = Exited g \<Longrightarrow> coord (step a s) = Exited g"
  by (cases a)
     (auto simp: step_defs Let_def split: option.splits coord.splits signal.splits prod.splits)

lemma finish_Exited: "coord s = Exited g \<Longrightarrow> outcome (finish s) = g"
  by (simp add: finish_def outcome_def enter_select_def timer_fires_def stop_server_def)

lemma await_Exited: "coord s = Exited g \<Longrightarrow> fst (await sched s) = g"
  by (induction sched arbitrary: s)
     (auto simp: finish_Exited step_Exited simp del: step.simps)

lemma await_skip:
  assumes "step a s = s"
  shows "fst (await (a # sched) s) = fst (await sched s)"
proof (cases "coord s")
  case (Exited g)
  with assms await_Exited[OF Exited, of sched] show ?thesis by simp
qed (use assms in simp_all)

lemma await_without_Stdin:
  "reader_done s \<Longrightarrow>
     fst (await sched s) = fst (await (filter (\<lambda>x. \<not> is_Stdin x) sched) s)"
proof (induction sched arbitrary: s)
  case (Cons a sched)
  show ?case
  proof (cases "is_Stdin a")
    case True
    then obtain r where "a = Stdin r" by (cases a) auto
    then have "step a s = s" using Cons.prems by (simp add: manual_reader_def)
    from await_skip[OF this] True Cons show ?thesis by simp
  next
    case False
    have "reader_done (step a s)" using Cons.prems by (rule step_reader_done)
    from Cons.IH[OF this] False show ?thesis
      by (auto simp del: step.simps split: coord.splits)
  qed
qed simp

text \<open>
  Claim C10. The reader of standard input delivers a code only when the line
  it has read is not empty after trimming, and then the trimmed line; an empty line or a
  read error delivers nothing. It reads once: after its read, whatever arrives on
  standard input changes neither the session nor the signal that resolves it, so the
  session is resolved by the other actions (the callbacks, the listener, the timer).
\<close>

theorem manual_reader_single_delivery:
  "(\<not> reader_done s \<and> strings_TrimSpace line \<noteq> [] \<longrightarrow>
      step (Stdin (Some line)) s
        = deliver_code (strings_TrimSpace line) (s\<lparr>reader_done := True\<rparr>))
   \<and> (strings_TrimSpace line = [] \<longrightarrow> step (Stdin (Some line)) s = s\<lparr>reader_done := True\<rparr>)
   \<and> step (Stdin None) s = s\<lparr>reader_done := True\<rparr>
   \<and> reader_done (step (Stdin r) s)
   \<and> (reader_done s \<longrightarrow>
        run sched s = run (filter (\<lambda>x. \<not> is_Stdin x) sched) s
      \<and> fst (await sched s) = fst (await (filter (\<lambda>x. \<not> is_Stdin x) sched) s))"
  using run_without_Stdin[of s sched] await_without_Stdin[of s sched] step_Stdin_done[of r s]
  by (auto simp: manual_reader_def Let_def)

text \<open>A line with a code, a blank line, and a line typed after a failed read.\<close>

theorem manual_reader_single_delivery_witness:
  "step (Stdin (Some '' abc123\<newline>'')) new_session
     = deliver_code ''abc123'' (new_session\<lparr>reader_done := True\<rparr>)
   \<and> step (Stdin (Some ''  \<newline>'')) new_session = new_session\<lparr>reader_done := True\<rparr>
   \<and> fst (await [Stdin (Some ''xyz\<newline>''), TimerFires] (step (Stdin None) new_session))
       = fst (await [TimerFires] (step (Stdin None) new_session))"
proof -
  have a: "\<not> reader_done new_session" by code_simp
  have b: "strings_TrimSpace '' abc123\<newline>'' = ''abc123''" by code_simp
  have c: "strings_TrimSpace ''  \<newline>'' = []" by code_simp
  have d: "reader_done (step (Stdin None) new_session)" by code_simp
  from manual_reader_single_delivery[of new_session "'' abc123\<newline>''"] a b
  have 1: "step (Stdin (Some '' abc123\<newline>'')) new_session
     = deliver_code ''abc123'' (new_session\<lparr>reader_done := True\<rparr>)" by simp
  from manual_reader_single_delivery[of new_session "''  \<newline>''"] c
  have 2: "step (Stdin (Some ''  \<newline>'')) new_session = new_session\<lparr>reader_done := True\<rparr>"
    by simp
  from manual_reader_single_delivery[of "step (Stdin None) new_session" _ _
      "[Stdin (Some ''xyz\<newline>''), TimerFires]"] d
  have 3: "fst (await [Stdin (Some ''xyz\<newline>''), TimerFires] (step (Stdin None) new_session))
       = fst (await [TimerFires] (step (Stdin None) new_session))"
    by (simp del: step.simps await.simps)
  from 1 2 3 show ?thesis by simp
qed

subsection \<open>The channels\<close>

lemma chan_send_ok: "chan_ok c \<Longrightarrow> chan_ok (chan_send v c)"
  by (cases "buf c") (auto simp: chan_ok_def chan_send_def)

lemma chan_recv_ok: "chan_ok c \<Longrightarrow> chan_recv c = Some (v, c') \<Longrightarrow> chan_ok c'"
  by (auto simp: chan_ok_def chan_recv_def split: list.splits)

lemma chan_send_pending: "pending (chan_send v c) = Suc (pending c)"
  by (auto simp: pending_def chan_send_def)

lemma chan_recv_pending: "chan_recv c = Some (v, c') \<Longrightarrow> pending c' \<le> pending c"
  by (auto simp: pending_def chan_recv_def split: list.splits)

lemma step_chan_ok:
  "chan_ok (codeChan s) \<and> chan_ok (errChan s) \<Longrightarrow>
   chan_ok (codeChan (step a s)) \<and> chan_ok (errChan (step a s))"
  by (cases a)
     (auto simp: step_defs Let_def chan_send_ok
           dest: chan_recv_ok
           split: option.splits coord.splits signal.splits prod.splits)

lemma step_pending_code:
  "pending (codeChan (step a s)) \<le> pending (codeChan s) + (if sends_code a then 1 else 0)"
  by (cases a)
     (auto simp: step_defs Let_def chan_send_pending
           dest: chan_recv_pending
           split: option.splits coord.splits signal.splits prod.splits)

lemma step_pending_err:
  "pending (errChan (step a s)) \<le> pending (errChan s) + (if sends_err a then 1 else 0)"
  by (cases a)
     (auto simp: step_defs Let_def chan_send_pending
           dest: chan_recv_pending
           split: option.splits coord.splits signal.splits prod.splits)

lemma run_chan_ok:
  "chan_ok (codeChan s) \<and> chan_ok (errChan s) \<Longrightarrow>
   chan_ok (codeChan (run sched s)) \<and> chan_ok (errChan (run sched s))"
proof (induction sched arbitrary: s)
  case (Cons a sched)
  from Cons.IH[OF step_chan_ok[OF Cons.prems]] show ?case by simp
qed simp

lemma run_pending_code:
  "pending (codeChan (run sched s))
     \<le> pending (codeChan s) + length (filter sends_code sched)"
proof (induction sched arbitrary: s)
  case (Cons a sched)
  from Cons.IH[of "step a s"] step_pending_code[of a s] show ?case
    by (auto simp del: step.simps split: if_splits)
qed simp

lemma run_pending_err:
  "pending (errChan (run sched s)) \<le> pending (errChan s) + length (filter sends_err sched)"
proof (induction sched arbitrary: s)
  case (Cons a sched)
  from Cons.IH[of "step a s"] step_pending_err[of a s] show ?case
    by (auto simp del: step.simps split: if_splits)
qed simp

lemma chan_ok_free: "chan_ok c \<Longrightarrow> pending c \<le> 1 \<Longrightarrow> sendq c = []"
  by (cases "sendq c") (auto simp: chan_ok_def pending_def)

text \<open>
  Claim C3, as the code has it. During one authorization session there are two
  channels of capacity one: \<^verbatim>\<open>codeChan\<close> for the code of the callback and for the code typed by
  hand, \<^verbatim>\<open>errChan\<close> for the error of the callback and for the error of the listener.
  Whatever the schedule, neither buffer holds more than one value and a sender is parked
  only behind a full buffer; no sender is parked on a channel on which at most one value
  is sent in the session; and a callback that arrives after the server has been closed
  changes nothing.
\<close>

theorem channels_of_capacity_one:
  "cap (codeChan (run sched new_session)) = 1 \<and> cap (errChan (run sched new_session)) = 1
   \<and> length (buf (codeChan (run sched new_session))) \<le> 1
   \<and> length (buf (errChan (run sched new_session))) \<le> 1
   \<and> (sendq (codeChan (run sched new_session)) \<noteq> [] \<longrightarrow>
        length (buf (codeChan (run sched new_session))) = 1)
   \<and> (sendq (errChan (run sched new_session)) \<noteq> [] \<longrightarrow>
        length (buf (errChan (run sched new_session))) = 1)
   \<and> (length (filter sends_code sched) \<le> 1 \<longrightarrow>
        sendq (codeChan (run sched new_session)) = [])
   \<and> (length (filter sends_err sched) \<le> 1 \<longrightarrow>
        sendq (errChan (run sched new_session)) = [])
   \<and> (server (run sched new_session) = Closed \<longrightarrow>
        step (Callback code) (run sched new_session) = run sched new_session)"
proof -
  have ok0: "chan_ok (codeChan new_session) \<and> chan_ok (errChan new_session)"
    by (simp add: chan_ok_def new_session_def make_chan_def)
  have p0: "pending (codeChan new_session) = 0" "pending (errChan new_session) = 0"
    by (simp_all add: pending_def new_session_def make_chan_def)
  note ok = run_chan_ok[OF ok0, of sched]
  have c: "length (filter sends_code sched) \<le> 1 \<longrightarrow>
             sendq (codeChan (run sched new_session)) = []"
    using run_pending_code[of sched new_session] p0 ok by (auto intro: chan_ok_free)
  have e: "length (filter sends_err sched) \<le> 1 \<longrightarrow>
             sendq (errChan (run sched new_session)) = []"
    using run_pending_err[of sched new_session] p0 ok by (auto intro: chan_ok_free)
  from ok c e show ?thesis by (auto simp: chan_ok_def)
qed

text \<open>In the session with the late callback and the line typed after it, the reader is
  parked behind the full buffer of \<^verbatim>\<open>codeChan\<close>; after two callbacks without a
  code that nobody receives, the second handler is parked behind the full buffer of
  \<^verbatim>\<open>errChan\<close>; in the session of the example world one code and no error is sent,
  nobody is parked, and a late callback changes nothing.\<close>

theorem channels_of_capacity_one_witness:
  "length (buf (codeChan (run ex_blocking_schedule new_session))) = 1
   \<and> length (buf (errChan (run [ServerStart True, Callback [], Callback []] new_session))) = 1
   \<and> sendq (codeChan (run (schedule ex_env) new_session)) = []
   \<and> sendq (errChan (run (schedule ex_env) new_session)) = []
   \<and> step (Callback ''abc123'') (run (schedule ex_env) new_session)
       = run (schedule ex_env) new_session"
proof -
  have a: "sendq (codeChan (run ex_blocking_schedule new_session)) \<noteq> []" by code_simp
  have a': "sendq (errChan (run [ServerStart True, Callback [], Callback []] new_session))
              \<noteq> []"
    by code_simp
  have b: "length (filter sends_code (schedule ex_env)) \<le> 1" by code_simp
  have c: "length (filter sends_err (schedule ex_env)) \<le> 1" by code_simp
  have d: "server (run (schedule ex_env) new_session) = Closed" by code_simp
  from channels_of_capacity_one[of ex_blocking_schedule] a
  have 1: "length (buf (codeChan (run ex_blocking_schedule new_session))) = 1" by simp
  from channels_of_capacity_one[of "[ServerStart True, Callback [], Callback []]"] a'
  have 2: "length (buf (errChan (run [ServerStart True, Callback [], Callback []]
             new_session))) = 1"
    by simp
  from channels_of_capacity_one[of "schedule ex_env" "''abc123''"] b c d
  have 3: "sendq (codeChan (run (schedule ex_env) new_session)) = []
   \<and> sendq (errChan (run (schedule ex_env) new_session)) = []
   \<and> step (Callback ''abc123'') (run (schedule ex_env) new_session)
       = run (schedule ex_env) new_session" by simp
  from 1 2 3 show ?thesis by simp
qed

text \<open>As first stated, with a channel for each of the three outcomes and no send that
  ever blocks, the claim fails. The callback and the reader of standard input send their
  codes on the same channel. In this session the timer fires, the callback arrives with
  its code before the coordinator has closed the server, and a line is typed after the
  coordinator has left: the code of the callback fills the buffer that nobody reads any
  more, and the reader of standard input is parked in its send.\<close>

theorem shared_code_channel_blocks:
  "codeChan (run ex_blocking_schedule new_session)
     = \<lparr>buf = [''abc123''], sendq = [''xyz''], cap = 1\<rparr>
   \<and> coord (run ex_blocking_schedule new_session) = Exited TimedOut"
  by code_simp

section \<open>The authorization flow\<close>

lemma classify_identity:
  "classify e = IdentityLookupError \<Longrightarrow> e = ErrCreateService \<or> e = ErrPrimaryCalendar"
  by (cases e) (auto split: if_splits)


lemma PerformOAuthFlow_sessions:
  "sessions (snd (PerformOAuthFlow E a w)) = sessions w
   \<or> sessions (snd (PerformOAuthFlow E a w)) = sessions w @ [flow_session E]"
  by (auto simp: PerformOAuthFlow_def flow_session_def Let_def
      dest!: SaveToken_sessions
      split: sum.splits signal.splits option.splits prod.splits)

lemma PerformOAuthFlow_ok:
  assumes "PerformOAuthFlow E a w = (Inr email, w1)"
  shows "\<exists>p. GetTokenPath E a = Inr p \<and> is_file (map_of (files w1) p)"
  using assms
  by (auto simp: PerformOAuthFlow_def Let_def dest!: SaveToken_node
      split: sum.splits signal.splits option.splits prod.splits if_splits)

lemma PerformOAuthFlow_frame:
  assumes "PerformOAuthFlow E a w = (r, w')" and "GetTokenPath E a \<noteq> Inr q"
  shows "is_file (map_of (files w') q) = is_file (map_of (files w) q)"
  using assms
  by (auto simp: PerformOAuthFlow_def Let_def dest!: SaveToken_frame[where q = q]
      split: sum.splits signal.splits option.splits prod.splits if_splits)

text \<open>
  Claim C4. For every account name and every session: when the exchange of
  the code fails, \<^verbatim>\<open>PerformOAuthFlow\<close> returns the exchange error and the world differs
  from the one before only by the record of the session; and whenever the files after a
  call differ from the files before it, the exchange of that call has succeeded.
\<close>

theorem exchange_failure_writes_nothing:
  "(\<forall>cfg code. GetOAuthConfig E (files w) = Inr cfg \<and> flow_signal E = GotCode code
        \<and> oauth2_Exchange E (flow_config cfg) code = None \<longrightarrow>
      PerformOAuthFlow E a w
        = (Inl ErrExchange, w\<lparr>sessions := sessions w @ [flow_session E]\<rparr>)
      \<and> classify ErrExchange = ExchangeError)
   \<and> (files (snd (PerformOAuthFlow E a w)) \<noteq> files w \<longrightarrow>
        (\<exists>cfg code token. GetOAuthConfig E (files w) = Inr cfg
           \<and> flow_signal E = GotCode code
           \<and> oauth2_Exchange E (flow_config cfg) code = Some token))"
  by (auto simp: PerformOAuthFlow_def flow_signal_def flow_session_def flow_config_def
           Let_def
           split: sum.splits signal.splits option.splits prod.splits)

text \<open>With the provider that rejects the code nothing is written; in the example world
  the token file is written, after the exchange.\<close>

theorem exchange_failure_writes_nothing_witness:
  "PerformOAuthFlow ex_env_no_exchange ''work'' ex_world
     = (Inl ErrExchange, ex_world\<lparr>sessions := [flow_session ex_env_no_exchange]\<rparr>)
   \<and> files (snd (PerformOAuthFlow ex_env ''work'' ex_world)) \<noteq> files ex_world
   \<and> (\<exists>cfg code token. GetOAuthConfig ex_env (files ex_world) = Inr cfg
         \<and> flow_signal ex_env = GotCode code
         \<and> oauth2_Exchange ex_env (flow_config cfg) code = Some token)"
proof -
  have a: "GetOAuthConfig ex_env_no_exchange (files ex_world) = Inr ex_oauth" by code_simp
  have b: "flow_signal ex_env_no_exchange = GotCode ''abc123''" by code_simp
  have c: "oauth2_Exchange ex_env_no_exchange (flow_config ex_oauth) ''abc123'' = None"
    by code_simp
  have s: "sessions ex_world = []" by code_simp
  from exchange_failure_writes_nothing[of ex_env_no_exchange ex_world "''work''"] a b c s
  have 1: "PerformOAuthFlow ex_env_no_exchange ''work'' ex_world
     = (Inl ErrExchange, ex_world\<lparr>sessions := [flow_session ex_env_no_exchange]\<rparr>)"
    by simp
  have d: "files (snd (PerformOAuthFlow ex_env ''work'' ex_world)) \<noteq> files ex_world"
    by code_simp
  from exchange_failure_writes_nothing[of ex_env ex_world "''work''"] d
  have 2: "\<exists>cfg code token. GetOAuthConfig ex_env (files ex_world) = Inr cfg
         \<and> flow_signal ex_env = GotCode code
         \<and> oauth2_Exchange ex_env (flow_config cfg) code = Some token" by simp
  from 1 2 d show ?thesis by simp
qed

text \<open>
  Claim C5. When the \<^verbatim>\<open>select\<close> is resolved by the timer,
  \<^verbatim>\<open>PerformOAuthFlow\<close> returns the timeout error. That is how it is resolved when
  the coordinator has reached the \<^verbatim>\<open>select\<close> and the timer fires before any action
  has delivered anything, whatever happens afterwards, and when no action of the session
  delivers anything at all. On every exit path the call has either started no session
  (the configuration could not be read, so nothing listens) or has left its session with
  the server closed, which no later action opens again; so the process holds the port
  after the call only if it held it before.
\<close>

theorem timeout_and_port_release:
  "(\<forall>cfg. GetOAuthConfig E (files w) = Inr cfg \<and> flow_signal E = TimedOut \<longrightarrow>
       fst (PerformOAuthFlow E a w) = Inl ErrTimeout \<and> classify ErrTimeout = TimeoutError)
   \<and> (\<forall>pre post. schedule E = pre @ TimerFires # post
         \<and> (\<forall>x \<in> set pre. \<not> delivers x) \<and> (\<exists>x \<in> set pre. is_EnterSelect x) \<longrightarrow>
       flow_signal E = TimedOut)
   \<and> ((\<forall>x \<in> set (schedule E). \<not> delivers x) \<longrightarrow> flow_signal E = TimedOut)
   \<and> (sessions (snd (PerformOAuthFlow E a w)) = sessions w
       \<or> (\<exists>s. sessions (snd (PerformOAuthFlow E a w)) = sessions w @ [s]
              \<and> server s = Closed \<and> (\<forall>late. server (run late s) = Closed)))
   \<and> port_held (snd (PerformOAuthFlow E a w)) = port_held w"
proof -
  have 1: "\<forall>cfg. GetOAuthConfig E (files w) = Inr cfg \<and> flow_signal E = TimedOut \<longrightarrow>
       fst (PerformOAuthFlow E a w) = Inl ErrTimeout \<and> classify ErrTimeout = TimeoutError"
    by (auto simp: PerformOAuthFlow_def flow_signal_def Let_def)
  have 2: "\<forall>pre post. schedule E = pre @ TimerFires # post
         \<and> (\<forall>x \<in> set pre. \<not> delivers x) \<and> (\<exists>x \<in> set pre. is_EnterSelect x) \<longrightarrow>
       flow_signal E = TimedOut"
    using await_timer_quiet[OF new_session_quiet] by (auto simp: flow_signal_def)
  have 3: "(\<forall>x \<in> set (schedule E). \<not> delivers x) \<longrightarrow> flow_signal E = TimedOut"
    using await_quiet[OF new_session_quiet] by (auto simp: flow_signal_def)
  have cl: "server (flow_session E) = Closed" using flow_session_closed by simp
  have 4: "sessions (snd (PerformOAuthFlow E a w)) = sessions w
       \<or> (\<exists>s. sessions (snd (PerformOAuthFlow E a w)) = sessions w @ [s]
              \<and> server s = Closed \<and> (\<forall>late. server (run late s) = Closed))"
    using PerformOAuthFlow_sessions[of E a w] cl run_server_closed[OF cl] by auto
  have 5: "port_held (snd (PerformOAuthFlow E a w)) = port_held w"
    using PerformOAuthFlow_sessions[of E a w] cl by (auto simp: port_held_def list_ex_iff)
  from 1 2 3 4 5 show ?thesis by blast
qed

text \<open>A session in which the server listens, a blank line is typed and the timer fires;
  and the session in which the callback and a typed line come after the timer.\<close>

theorem timeout_and_port_release_witness:
  "fst (PerformOAuthFlow ex_env_timeout ''work'' ex_world) = Inl ErrTimeout
   \<and> flow_signal ex_env_timeout = TimedOut
   \<and> \<not> port_held (snd (PerformOAuthFlow ex_env_timeout ''work'' ex_world))
   \<and> flow_signal ex_env_late = TimedOut
   \<and> fst (PerformOAuthFlow ex_env_late ''work'' ex_world) = Inl ErrTimeout"
proof -
  have a: "GetOAuthConfig ex_env_timeout (files ex_world) = Inr ex_oauth" by code_simp
  have b: "\<forall>x \<in> set (schedule ex_env_timeout). \<not> delivers x" by code_simp
  have c: "\<not> port_held ex_world" by code_simp
  from timeout_and_port_release[of ex_env_timeout ex_world "''work''"] a b c
  have 1: "fst (PerformOAuthFlow ex_env_timeout ''work'' ex_world) = Inl ErrTimeout
   \<and> flow_signal ex_env_timeout = TimedOut
   \<and> \<not> port_held (snd (PerformOAuthFlow ex_env_timeout ''work'' ex_world))"
    by simp
  have a': "GetOAuthConfig ex_env_late (files ex_world) = Inr ex_oauth" by code_simp
  have d: "schedule ex_env_late
      = [ServerStart True, EnterSelect False] @ TimerFires
        # [Callback ''abc123'', StopServer, Stdin (Some ''xyz\<newline>'')]"
    by code_simp
  have e: "\<forall>x \<in> set [ServerStart True, EnterSelect False]. \<not> delivers x" by simp
  have f: "\<exists>x \<in> set [ServerStart True, EnterSelect False]. is_EnterSelect x" by simp
  from timeout_and_port_release[of ex_env_late ex_world "''work''"] d e f
  have g: "flow_signal ex_env_late = TimedOut" by blast
  from timeout_and_port_release[of ex_env_late ex_world "''work''"] a' g
  have 2: "fst (PerformOAuthFlow ex_env_late ''work'' ex_world) = Inl ErrTimeout" by simp
  from 1 g 2 show ?thesis by simp
qed



section \<open>Token files and the list of accounts\<close>

text \<open>Writing a token keeps every file of the store readable that was so before; and a
  configuration that could be loaded from a well-formed store is no file that its owner
  cannot read.\<close>

lemma SaveToken_keeps_readable:
  assumes "SaveToken E a t w = (r, w')"
    and "\<forall>d m. map_of (files w) q = Some (File d m) \<longrightarrow> can_read m"
  shows "\<forall>d m. map_of (files w') q = Some (File d m) \<longrightarrow> can_read m"
proof (intro allI impI)
  fix d m
  assume f: "map_of (files w') q = Some (File d m)"
  show "can_read m"
  proof (cases "files w' = files w")
    case True
    with f assms(2) show ?thesis by auto
  next
    case False
    with assms(1) have "\<exists>p dt s1. GetTokenPath E a = Inr p
        \<and> os_MkdirAll (files w) (filepath_Dir p) owner_rwx = Inr s1
        \<and> (files w' = s1 \<or> os_WriteFile s1 p dt owner_rw = Inr (files w'))"
      by (auto simp: SaveToken_def split: sum.splits option.splits)
    then obtain p dt s1 where
      p: "GetTokenPath E a = Inr p" and
      mk: "os_MkdirAll (files w) (filepath_Dir p) owner_rwx = Inr s1" and
      c: "files w' = s1 \<or> (\<exists>s2. os_WriteFile s1 p dt owner_rw = Inr s2 \<and> files w' = s2)"
      by auto
    from c show ?thesis
    proof
      assume "files w' = s1"
      with f MkdirAll_file[OF mk, of q d m] assms(2) show ?thesis by auto
    next
      assume "\<exists>s2. os_WriteFile s1 p dt owner_rw = Inr s2 \<and> files w' = s2"
      then obtain s2 where wr: "os_WriteFile s1 p dt owner_rw = Inr s2" and s2: "files w' = s2"
        by auto
      show ?thesis
      proof (cases "q = p")
        case True
        with WriteFile_node[OF wr] f s2
        have "m = owner_rw \<or> (\<exists>d0. map_of s1 q = Some (File d0 m))" by auto
        with MkdirAll_file[OF mk, of q _ m] assms(2) show ?thesis
          by (auto simp: can_read_owner_rw)
      next
        case False
        with WriteFile_node[OF wr] f s2 have "map_of s1 q = Some (File d m)" by auto
        with MkdirAll_file[OF mk, of q d m] assms(2) show ?thesis by auto
      qed
    qed
  qed
qed

lemma PerformOAuthFlow_keeps_readable:
  assumes "PerformOAuthFlow E a w = (r, w')"
    and "\<forall>d m. map_of (files w) q = Some (File d m) \<longrightarrow> can_read m"
  shows "\<forall>d m. map_of (files w') q = Some (File d m) \<longrightarrow> can_read m"
proof (cases "files w' = files w")
  case True
  with assms(2) show ?thesis by simp
next
  case False
  with assms(1) obtain t w1 r1 where
    "SaveToken E a t w1 = (r1, w')" "files w1 = files w"
    by (auto simp: PerformOAuthFlow_def Let_def
        split: sum.splits signal.splits option.splits prod.splits if_splits)
  with SaveToken_keeps_readable[of E a t w1 r1 w' q] assms(2) show ?thesis by simp
qed

lemma LoadConfig_readable:
  assumes "LoadConfig E s = Inr c" and "wf_fs s" and "GetConfigDir E = Inr dir"
  shows "\<forall>d m. map_of s (filepath_Join dir [''config.json'']) = Some (File d m) \<longrightarrow> can_read m"
proof (intro allI impI)
  fix d m
  assume f: "map_of s (filepath_Join dir [''config.json'']) = Some (File d m)"
  from wf_traverse[OF assms(2) f] assms(1,3) f show "can_read m"
    by (auto simp: LoadConfig_def os_ReadFile_def split: if_splits)
qed

lemma LoadConfig_listed_readable:
  assumes "LoadConfig E s = Inr c" and "Accounts c a \<noteq> None" and "GetConfigDir E = Inr dir"
  shows "\<forall>d m. map_of s (filepath_Join dir [''config.json'']) = Some (File d m) \<longrightarrow> can_read m"
  using assms
  by (auto simp: LoadConfig_def os_ReadFile_def
      split: if_splits option.splits node.splits sum.splits)

lemma SaveConfig_ok:
  assumes "SaveConfig E c w = (None, w')"
  shows "\<exists>dir d m. GetConfigDir E = Inr dir \<and> json_MarshalIndent_Config E c = Some d
           \<and> map_of (files w') (filepath_Join dir [''config.json'']) = Some (File d m)
           \<and> traverse (files w') (filepath_Join dir [''config.json'']) = None
           \<and> (m = owner_rw
                \<or> (\<exists>d0. map_of (files w) (filepath_Join dir [''config.json''])
                           = Some (File d0 m)))
           \<and> (\<forall>q. q \<noteq> filepath_Join dir [''config.json''] \<longrightarrow>
                  is_file (map_of (files w') q) = is_file (map_of (files w) q))"
proof -
  from assms obtain dir s1 s2 d s3 where
    dir: "GetConfigDir E = Inr dir" and
    m1: "os_MkdirAll (files w) dir owner_rwx = Inr s1" and
    m2: "os_MkdirAll s1 (filepath_Join dir [''tokens'']) owner_rwx = Inr s2" and
    d: "json_MarshalIndent_Config E c = Some d" and
    wr: "os_WriteFile s2 (filepath_Join dir [''config.json'']) d owner_rw = Inr s3" and
    w': "w' = w\<lparr>files := s3\<rparr>"
    by (auto simp: SaveConfig_def split: sum.splits option.splits)
  let ?cp = "filepath_Join dir [''config.json'']"
  from WriteFile_node[OF wr] obtain m where
    m: "map_of s3 ?cp = Some (File d m)" "traverse s3 ?cp = None"
       "m = owner_rw \<or> (\<exists>d0. map_of s2 ?cp = Some (File d0 m))"
    and fr: "\<forall>q. q \<noteq> ?cp \<longrightarrow> map_of s3 q = map_of s2 q"
    by auto
  from m(3) MkdirAll_file[OF m1, of ?cp _ m] MkdirAll_file[OF m2, of ?cp _ m]
  have m': "m = owner_rw \<or> (\<exists>d0. map_of (files w) ?cp = Some (File d0 m))" by auto
  from fr MkdirAll_is_file[OF m1] MkdirAll_is_file[OF m2]
  have "\<forall>q. q \<noteq> ?cp \<longrightarrow> is_file (map_of s3 q) = is_file (map_of (files w) q)"
    by auto
  with dir d m m' w' show ?thesis by auto
qed

lemma SaveConfig_listed:
  assumes "SaveConfig E c w = (None, w')" and "codec_keeps E a"
    and "\<forall>dir d0 m. GetConfigDir E = Inr dir
           \<and> map_of (files w) (filepath_Join dir [''config.json'']) = Some (File d0 m)
           \<longrightarrow> can_read m"
  shows "listed E (files w') a = (Accounts c a \<noteq> None)"
proof -
  from SaveConfig_ok[OF assms(1)] obtain dir d m where
    dir: "GetConfigDir E = Inr dir" and d: "json_MarshalIndent_Config E c = Some d" and
    f: "map_of (files w') (filepath_Join dir [''config.json'']) = Some (File d m)"
       "traverse (files w') (filepath_Join dir [''config.json'']) = None" and
    m: "m = owner_rw
          \<or> (\<exists>d0. map_of (files w) (filepath_Join dir [''config.json'']) = Some (File d0 m))"
    by blast
  from m assms(3) dir have "can_read m" by (auto simp: can_read_owner_rw)
  with f have rd: "os_ReadFile (files w') (filepath_Join dir [''config.json'']) = Inr d"
    by (simp add: os_ReadFile_def)
  from assms(2) d have
    "case json_Unmarshal_Config E d of None \<Rightarrow> False | Some None \<Rightarrow> Accounts c a = None
     | Some (Some m) \<Rightarrow> (m a = None) = (Accounts c a = None)"
    by (simp add: codec_keeps_def)
  with dir rd show ?thesis
    by (auto simp: listed_def LoadConfig_def split: option.splits)
qed

lemma token_file_exists_iff:
  "GetTokenPath E a = Inr p \<Longrightarrow> token_file_exists E s a = is_file (map_of s p)"
  by (simp add: token_file_exists_def is_file_def)

lemma listed_iff: "LoadConfig E s = Inr c \<Longrightarrow> listed E s a = (Accounts c a \<noteq> None)"
  by (simp add: listed_def)

lemma apart_token_file:
  assumes "apart E a b" and "GetTokenPath E a = Inr p" and "GetConfigDir E = Inr dir"
    and "\<forall>q. q \<noteq> p \<and> q \<noteq> filepath_Join dir [''config.json''] \<longrightarrow>
            is_file (map_of s' q) = is_file (map_of s q)"
  shows "token_file_exists E s' b = token_file_exists E s b"
proof (cases "GetTokenPath E b")
  case (Inl e)
  then show ?thesis by (simp add: token_file_exists_def)
next
  case (Inr q)
  with assms(1-3) have "q \<noteq> p" "q \<noteq> filepath_Join dir [''config.json'']"
    by (auto simp: apart_def aliases_config_def)
  with assms(4) Inr show ?thesis by (simp add: token_file_exists_iff)
qed

lemma ex_wf: "wf_fs (files ex_world)"
  by code_simp

lemma ex_codec_keeps: "codec_keeps ex_env ''work''"
  by (auto simp: codec_keeps_def ex_env_def ex_account_def ex_config_json_def
      ex_empty_config_json_def quoted_def split: option.splits if_splits)

lemma ex_codec_keeps_personal: "codec_keeps ex_env ''personal''"
  by (auto simp: codec_keeps_def ex_env_def ex_account_def ex_config_json_def
      ex_empty_config_json_def quoted_def split: option.splits if_splits)

text \<open>
  Claim C2, as the code has it. Let the JSON library keep the account \<open>name\<close>.
  After an \<^verbatim>\<open>AddAccount\<close> of \<open>name\<close> that returns no error, in a well-formed store, a
  token file exists for \<open>name\<close> and \<open>name\<close> is listed. After a
  \<^verbatim>\<open>RemoveAccount\<close> of \<open>name\<close> that returns no error, where the token path of
  \<open>name\<close> is not the configuration file, \<open>name\<close> is not listed; the call ignores the
  error of \<^verbatim>\<open>os.Remove\<close>, so a token file exists for \<open>name\<close> afterwards exactly
  when one existed before and its removal failed. In both cases every other account \<open>b\<close>
  that the library keeps, and whose token path is neither that of \<open>name\<close> nor the
  configuration file, has a token file after the call exactly when it had one before, and
  is listed after the call exactly when it was before.
\<close>

theorem account_operations_keep_invariant:
  assumes "codec_keeps E name"
  shows "(AddAccount E name w = (None, w') \<and> wf_fs (files w) \<longrightarrow>
            token_file_exists E (files w') name \<and> listed E (files w') name
          \<and> (\<forall>b. apart E name b \<and> codec_keeps E b \<longrightarrow>
                 token_file_exists E (files w') b = token_file_exists E (files w) b
               \<and> listed E (files w') b = listed E (files w) b))
       \<and> (RemoveAccount E name w = (None, w') \<and> \<not> aliases_config E name \<longrightarrow>
            \<not> listed E (files w') name
          \<and> token_file_exists E (files w') name
              = (token_file_exists E (files w) name
                 \<and> (\<exists>p e. GetTokenPath E name = Inr p \<and> os_Remove (files w) p = Inl e))
          \<and> (\<forall>b. apart E name b \<and> codec_keeps E b \<longrightarrow>
                 token_file_exists E (files w') b = token_file_exists E (files w) b
               \<and> listed E (files w') b = listed E (files w) b))"
proof (intro conjI impI allI)
  assume "AddAccount E name w = (None, w') \<and> wf_fs (files w)"
  then have add: "AddAccount E name w = (None, w')" and wf: "wf_fs (files w)" by auto
  from add obtain c email w1 where
    c: "LoadConfig E (files w) = Inr c" and
    fl: "PerformOAuthFlow E name w = (Inr email, w1)" and
    sc: "SaveConfig E
           (c\<lparr>Accounts := (Accounts c)(name \<mapsto> \<lparr>Name = name, Email = email\<rparr>)\<rparr>) w1
         = (None, w')"
    by (auto simp: AddAccount_def split: sum.splits if_splits prod.splits)
  from PerformOAuthFlow_ok[OF fl] obtain p where
    p: "GetTokenPath E name = Inr p" and f: "is_file (map_of (files w1) p)" by auto
  from SaveConfig_ok[OF sc] obtain dir where
    dir: "GetConfigDir E = Inr dir" and
    cf: "is_file (map_of (files w') (filepath_Join dir [''config.json'']))" and
    fr: "\<forall>q. q \<noteq> filepath_Join dir [''config.json''] \<longrightarrow>
           is_file (map_of (files w') q) = is_file (map_of (files w1) q)"
    by (auto simp: is_file_def)
  from PerformOAuthFlow_keeps_readable[OF fl LoadConfig_readable[OF c wf dir]] dir
  have rd: "\<forall>dir d0 m. GetConfigDir E = Inr dir
           \<and> map_of (files w1) (filepath_Join dir [''config.json'']) = Some (File d0 m)
           \<longrightarrow> can_read m"
    by auto
  from cf fr f have "is_file (map_of (files w') p)"
    by (cases "p = filepath_Join dir [''config.json'']") auto
  with p show "token_file_exists E (files w') name" by (simp add: token_file_exists_iff)
  from SaveConfig_listed[OF sc assms rd] show "listed E (files w') name" by simp
  fix b
  assume b: "apart E name b \<and> codec_keeps E b"
  have "\<forall>q. q \<noteq> p \<and> q \<noteq> filepath_Join dir [''config.json''] \<longrightarrow>
            is_file (map_of (files w') q) = is_file (map_of (files w) q)"
    using fr PerformOAuthFlow_frame[OF fl] p by auto
  from apart_token_file[OF _ p dir this] b
  show "token_file_exists E (files w') b = token_file_exists E (files w) b" by simp
  from b p have "b \<noteq> name" by (auto simp: apart_def)
  with SaveConfig_listed[OF sc _ rd, of b] b listed_iff[OF c, of b]
  show "listed E (files w') b = listed E (files w) b" by simp
next
  assume rm: "RemoveAccount E name w = (None, w') \<and> \<not> aliases_config E name"
  then obtain c p where
    c: "LoadConfig E (files w) = Inr c" and
    nm: "Accounts c name \<noteq> None" and
    p: "GetTokenPath E name = Inr p" and
    sc: "SaveConfig E (c\<lparr>Accounts := (Accounts c)(name := None)\<rparr>)
           (w\<lparr>files := (case os_Remove (files w) p of Inl _ \<Rightarrow> files w | Inr s' \<Rightarrow> s')\<rparr>)
         = (None, w')"
    by (auto simp: RemoveAccount_def Let_def split: sum.splits if_splits)
  let ?s1 = "case os_Remove (files w) p of Inl _ \<Rightarrow> files w | Inr s' \<Rightarrow> s'"
  from SaveConfig_ok[OF sc] obtain dir where
    dir: "GetConfigDir E = Inr dir" and
    fr: "\<forall>q. q \<noteq> filepath_Join dir [''config.json''] \<longrightarrow>
           is_file (map_of (files w') q) = is_file (map_of ?s1 q)"
    by auto
  from rm p dir have ne: "p \<noteq> filepath_Join dir [''config.json'']"
    by (simp add: aliases_config_def)
  from LoadConfig_listed_readable[OF c nm dir] Remove_frame[OF ne[symmetric], of "files w"] dir
  have rd: "\<forall>dir d0 m. GetConfigDir E = Inr dir
           \<and> map_of (files (w\<lparr>files := ?s1\<rparr>)) (filepath_Join dir [''config.json''])
               = Some (File d0 m)
           \<longrightarrow> can_read m"
    by auto
  from SaveConfig_listed[OF sc assms rd] show "\<not> listed E (files w') name" by simp
  from fr ne Remove_at[of "files w" p]
  have "is_file (map_of (files w') p)
          = (is_file (map_of (files w) p) \<and> (\<exists>e. os_Remove (files w) p = Inl e))"
    by simp
  with p show "token_file_exists E (files w') name
              = (token_file_exists E (files w) name
                 \<and> (\<exists>p e. GetTokenPath E name = Inr p \<and> os_Remove (files w) p = Inl e))"
    by (simp add: token_file_exists_iff)
  fix b
  assume b: "apart E name b \<and> codec_keeps E b"
  have "\<forall>q. q \<noteq> p \<and> q \<noteq> filepath_Join dir [''config.json''] \<longrightarrow>
            is_file (map_of (files w') q) = is_file (map_of (files w) q)"
    using fr Remove_frame[of _ p "files w"] by auto
  from apart_token_file[OF _ p dir this] b
  show "token_file_exists E (files w') b = token_file_exists E (files w) b" by simp
  from b p have "b \<noteq> name" by (auto simp: apart_def)
  with SaveConfig_listed[OF sc _ rd, of b] b listed_iff[OF c, of b]
  show "listed E (files w') b = listed E (files w) b" by simp
qed

text \<open>In the example world \<^verbatim>\<open>work\<close> is added and then removed; the account
  \<^verbatim>\<open>personal\<close> has no token file and is not listed, before and after. In the world
  where the directory of the token files does not allow changes, the removal of the token
  file of \<^verbatim>\<open>work\<close> fails, and the file is there after \<^verbatim>\<open>RemoveAccount\<close>.\<close>

theorem account_operations_keep_invariant_witness:
  "token_file_exists ex_env (files (snd (AddAccount ex_env ''work'' ex_world))) ''work''
   \<and> listed ex_env (files (snd (AddAccount ex_env ''work'' ex_world))) ''work''
   \<and> \<not> token_file_exists ex_env (files (snd (AddAccount ex_env ''work'' ex_world)))
        ''personal''
   \<and> \<not> listed ex_env (files (snd (AddAccount ex_env ''work'' ex_world))) ''personal''
   \<and> \<not> token_file_exists ex_env
        (files (snd (RemoveAccount ex_env ''work''
           (snd (AddAccount ex_env ''work'' ex_world))))) ''work''
   \<and> \<not> listed ex_env
        (files (snd (RemoveAccount ex_env ''work''
           (snd (AddAccount ex_env ''work'' ex_world))))) ''work''
   \<and> token_file_exists ex_env
        (files (snd (RemoveAccount ex_env ''work'' ex_locked_world))) ''work''
   \<and> \<not> listed ex_env
        (files (snd (RemoveAccount ex_env ''work'' ex_locked_world))) ''work''"
proof -
  let ?w1 = "snd (AddAccount ex_env ''work'' ex_world)"
  let ?w2 = "snd (RemoveAccount ex_env ''work'' ?w1)"
  let ?w3 = "snd (RemoveAccount ex_env ''work'' ex_locked_world)"
  have "fst (AddAccount ex_env ''work'' ex_world) = None" by code_simp
  then have a: "AddAccount ex_env ''work'' ex_world = (None, ?w1)" by (metis prod.collapse)
  have "fst (RemoveAccount ex_env ''work'' ?w1) = None" by code_simp
  then have r: "RemoveAccount ex_env ''work'' ?w1 = (None, ?w2)" by (metis prod.collapse)
  have "fst (RemoveAccount ex_env ''work'' ex_locked_world) = None" by code_simp
  then have l: "RemoveAccount ex_env ''work'' ex_locked_world = (None, ?w3)"
    by (metis prod.collapse)
  have n: "\<not> aliases_config ex_env ''work''" by code_simp
  have ap: "apart ex_env ''work'' ''personal''" by code_simp
  have b0: "\<not> token_file_exists ex_env (files ex_world) ''personal''"
    "\<not> listed ex_env (files ex_world) ''personal''"
    by code_simp+
  have rm1: "os_Remove (files ?w1) (ex_dir @ [''tokens'', ''work.json''])
      = Inr (AList.delete (ex_dir @ [''tokens'', ''work.json'']) (files ?w1))"
    by code_simp
  have t3: "token_file_exists ex_env (files ex_locked_world) ''work''" by code_simp
  have rm3: "os_Remove (files ex_locked_world) (ex_dir @ [''tokens'', ''work.json''])
      = Inl EACCES"
    by code_simp
  from account_operations_keep_invariant[OF ex_codec_keeps, of ex_world ?w1] a ap
    ex_codec_keeps_personal b0 ex_wf
  have 1: "token_file_exists ex_env (files ?w1) ''work'' \<and> listed ex_env (files ?w1) ''work''
    \<and> \<not> token_file_exists ex_env (files ?w1) ''personal''
    \<and> \<not> listed ex_env (files ?w1) ''personal''"
    by simp
  from account_operations_keep_invariant[OF ex_codec_keeps, of ?w1 ?w2] r n rm1
  have 2: "\<not> token_file_exists ex_env (files ?w2) ''work''
    \<and> \<not> listed ex_env (files ?w2) ''work''"
    by (simp add: ex_token_path)
  from account_operations_keep_invariant[OF ex_codec_keeps, of ex_locked_world ?w3] l n t3 rm3
  have 3: "token_file_exists ex_env (files ?w3) ''work''
    \<and> \<not> listed ex_env (files ?w3) ''work''"
    by (simp add: ex_token_path)
  from 1 2 3 show ?thesis by simp
qed

text \<open>As first stated, for every completed operation, the claim fails. In the example
  world, where no account is listed, \<^verbatim>\<open>PerformOAuthFlow\<close> succeeds for
  \<^verbatim>\<open>work\<close> and leaves a token file for an account that the configuration does not
  list; with the provider whose calendar look-up fails, \<^verbatim>\<open>AddAccount\<close>
  returns an error and leaves the same; and in the world where the directory of the token
  files does not allow changes, \<^verbatim>\<open>RemoveAccount\<close> of the listed account
  \<^verbatim>\<open>work\<close> returns no error, takes the account from the list and leaves its token
  file.\<close>

theorem token_file_without_listing:
  "fst (PerformOAuthFlow ex_env ''work'' ex_world) = Inr ''me@example.com''
   \<and> token_file_exists ex_env (files (snd (PerformOAuthFlow ex_env ''work'' ex_world))) ''work''
   \<and> \<not> listed ex_env (files (snd (PerformOAuthFlow ex_env ''work'' ex_world))) ''work''
   \<and> fst (AddAccount ex_env_no_identity ''work'' ex_world)
       = Some (ErrOAuthFlow ErrPrimaryCalendar)
   \<and> token_file_exists ex_env_no_identity
        (files (snd (AddAccount ex_env_no_identity ''work'' ex_world))) ''work''
   \<and> \<not> listed ex_env_no_identity
        (files (snd (AddAccount ex_env_no_identity ''work'' ex_world))) ''work''
   \<and> fst (RemoveAccount ex_env ''work'' ex_locked_world) = None
   \<and> token_file_exists ex_env
        (files (snd (RemoveAccount ex_env ''work'' ex_locked_world))) ''work''
   \<and> \<not> listed ex_env (files (snd (RemoveAccount ex_env ''work'' ex_locked_world))) ''work''"
  by code_simp

end
